theory Spec2Isabelle
  imports Complex_Main "HOL-Library.Multiset"
begin

section \<open>Numeric model\<close>

text \<open>
  The defuzzification code of DoggOSFuzzy computes on numpy arrays of 64-bit floats.
  Floats are modelled by the reals: every arithmetic operation is exact, the constant
  \<open>1e-10\<close> is the real number \<open>1 / 10 ^ 10\<close> and \<open>np.finfo(float).eps\<close> is
  \<open>1 / 2 ^ 52\<close>. One-dimensional arrays are lists. Every exception the code or
  numpy raises is a value of \<open>error\<close>; a float NaN, where the code produces one, is made
  explicit (\<open>calculate_membership\<close>).
\<close>

datatype error =
  IndexError | ValueError | TypeError | ZeroDivisionError | OverflowError | PyException

definition bias :: real where
  "bias = 1 / 10 ^ 10"

definition float_eps :: real where
  "float_eps = 1 / 2 ^ 52"

text \<open>
  \<open>np.average(a, weights=w)\<close> on one-dimensional arrays: numpy raises TypeError when
  the shapes differ, ZeroDivisionError when the weights sum to zero, and otherwise returns
  \<open>sum(a * w) / sum(w)\<close>.
\<close>

definition np_average :: "real list \<Rightarrow> real list \<Rightarrow> error + real" where
  "np_average a w =
     (if length a \<noteq> length w then Inl TypeError
      else if sum_list w = 0 then Inl ZeroDivisionError
      else Inr (sum_list (map2 (*) a w) / sum_list w))"

text \<open>
  Elementwise binary operation on two one-dimensional arrays with numpy broadcasting:
  equal lengths, or one operand of length one; anything else raises ValueError.
\<close>

definition np_broadcast2 ::
  "(real \<Rightarrow> real \<Rightarrow> real) \<Rightarrow> real list \<Rightarrow> real list \<Rightarrow> error + real list" where
  "np_broadcast2 f xs ys =
     (if length xs = length ys then Inr (map2 f xs ys)
      else if length xs = 1 then Inr (map (f (hd xs)) ys)
      else if length ys = 1 then Inr (map (\<lambda>x. f x (hd ys)) xs)
      else Inl ValueError)"

text \<open>
  The assignment \<open>dst[...] = src\<close> into a destination slice of \<open>n\<close> elements: the
  source has \<open>n\<close> elements, or one element that is broadcast; anything else raises
  ValueError. The result is the new content of the slice.
\<close>

definition np_assign :: "nat \<Rightarrow> real list \<Rightarrow> error + real list" where
  "np_assign n src =
     (if length src = n then Inr src
      else if length src = 1 then Inr (replicate n (hd src))
      else Inl ValueError)"

section \<open>Defuzzification algorithms\<close>

subsection \<open>Union of membership functions\<close>

text \<open>
  The argument \<open>mfs\<close> of the defuzzifiers is either one array of floats
  (\<open>not isinstance(mfs[0], Iterable)\<close>) or a collection of arrays.
\<close>

datatype mfs = Single "real list" | Many "real list list"

text \<open>The loop \<open>for i, mf in enumerate(mfs): reshaped_mfs[i] = mf\<close>.\<close>

fun fill_rows :: "nat \<Rightarrow> real list list \<Rightarrow> error + real list list" where
  "fill_rows universe_size [] = Inr []"
| "fill_rows universe_size (mf # rest) =
     (case np_assign universe_size mf of
        Inl e \<Rightarrow> Inl e
      | Inr row \<Rightarrow>
          (case fill_rows universe_size rest of
             Inl e \<Rightarrow> Inl e
           | Inr rows \<Rightarrow> Inr (row # rows)))"

text \<open>\<open>np.max(reshaped_mfs, axis=0)\<close> for at least one row.\<close>

definition np_max_axis0 :: "real list list \<Rightarrow> real list" where
  "np_max_axis0 rows = foldl (map2 max) (hd rows) (tl rows)"

definition union_rows :: "real list list \<Rightarrow> error + real list" where
  "union_rows rows =
     (case fill_rows (length (hd rows)) rows of
        Inl e \<Rightarrow> Inl e
      | Inr reshaped_mfs \<Rightarrow> Inr (np_max_axis0 reshaped_mfs))"

definition membership_func_union :: "mfs \<Rightarrow> error + real list" where
  "membership_func_union m =
     (case m of
        Single xs \<Rightarrow> (if xs = [] then Inl IndexError else union_rows [xs])
      | Many rows \<Rightarrow> (if rows = [] then Inl IndexError else union_rows rows))"

subsection \<open>Centroid and weighted average\<close>

definition center_of_gravity :: "real list \<Rightarrow> mfs \<Rightarrow> error + real" where
  "center_of_gravity domain membership_functions =
     (case membership_func_union membership_functions of
        Inl e \<Rightarrow> Inl e
      | Inr cut_mf \<Rightarrow> np_average domain cut_mf)"

text \<open>\<open>firings + 1e-10\<close> adds the constant to every element.\<close>

definition weighted_average :: "real list \<Rightarrow> real list \<Rightarrow> error + real" where
  "weighted_average firings outputs =
     np_average outputs (map (\<lambda>f. f + bias) firings)"

subsection \<open>Karnik-Mendel\<close>

text \<open>\<open>np.where(domain <= c)[0][-1]\<close>: IndexError when no index qualifies.\<close>

definition find_k :: "real \<Rightarrow> real list \<Rightarrow> error + nat" where
  "find_k c domain =
     (case filter (\<lambda>i. domain ! i \<le> c) [0..<length domain] of
        [] \<Rightarrow> Inl IndexError
      | j # js \<Rightarrow> Inr (last (j # js)))"

definition find_c_minute ::
  "real \<Rightarrow> real list \<Rightarrow> real list \<Rightarrow> real list \<Rightarrow> error + real" where
  "find_c_minute c under_mf over_mf domain =
     (case find_k c domain of
        Inl e \<Rightarrow> Inl e
      | Inr k \<Rightarrow>
          (case np_assign (min (k + 1) (length domain)) (take (k + 1) under_mf) of
             Inl e \<Rightarrow> Inl e
           | Inr lo \<Rightarrow>
               (case np_assign (length domain - (k + 1)) (drop (k + 1) over_mf) of
                  Inl e \<Rightarrow> Inl e
                | Inr hi \<Rightarrow> np_average domain (map (\<lambda>w. w + bias) (lo @ hi)))))"

text \<open>
  The \<open>while\<close> loop of \<open>__find_y\<close>. It has no iteration bound, so the model is a
  partial function: \<open>None\<close> is a loop that never exits.
\<close>

partial_function (option) find_y_loop ::
  "(real \<Rightarrow> error + real) \<Rightarrow> real \<Rightarrow> real \<Rightarrow> (error + real) option" where
  "find_y_loop f c_prim c_minute =
     (if \<bar>c_minute - c_prim\<bar> > float_eps
      then (case f c_minute of
              Inl e \<Rightarrow> Some (Inl e)
            | Inr c_next \<Rightarrow> find_y_loop f c_minute c_next)
      else Some (Inr c_minute))"

definition find_y ::
  "(real \<Rightarrow> real list \<Rightarrow> error + real) \<Rightarrow> real list \<Rightarrow> real list \<Rightarrow> (error + real) option" where
  "find_y partial_find_c_minute domain thetas =
     (case np_average domain thetas of
        Inl e \<Rightarrow> Some (Inl e)
      | Inr c_prim \<Rightarrow>
          (case partial_find_c_minute c_prim domain of
             Inl e \<Rightarrow> Some (Inl e)
           | Inr c_minute \<Rightarrow>
               find_y_loop (\<lambda>c. partial_find_c_minute c domain) c_prim c_minute))"

definition karnik_mendel :: "mfs \<Rightarrow> mfs \<Rightarrow> real list \<Rightarrow> (error + real) option" where
  "karnik_mendel lmfs umfs domain =
     (case membership_func_union lmfs of
        Inl e \<Rightarrow> Some (Inl e)
      | Inr lower_cut \<Rightarrow>
     (case membership_func_union umfs of
        Inl e \<Rightarrow> Some (Inl e)
      | Inr upper_cut \<Rightarrow>
     (case np_broadcast2 (+) lower_cut upper_cut of
        Inl e \<Rightarrow> Some (Inl e)
      | Inr cut_sum \<Rightarrow>
     (let thetas = map (\<lambda>t. t / 2 + bias) cut_sum in
      case find_y (\<lambda>c d. find_c_minute c upper_cut lower_cut d) domain thetas of
        None \<Rightarrow> None
      | Some (Inl e) \<Rightarrow> Some (Inl e)
      | Some (Inr y_l) \<Rightarrow>
     (case find_y (\<lambda>c d. find_c_minute c lower_cut upper_cut d) domain thetas of
        None \<Rightarrow> None
      | Some (Inl e) \<Rightarrow> Some (Inl e)
      | Some (Inr y_r) \<Rightarrow> Some (Inr ((y_l + y_r) / 2)))))))"

subsection \<open>Takagi-Sugeno variant of Karnik-Mendel\<close>

text \<open>
  \<open>calculate_membership\<close> divides by the horizontal distance of the bracketing points.
  On 64-bit floats a zero distance does not raise: numpy returns NaN (the numerator is
  zero as well, see \<open>bracket_distance\<close>), which is a result of its own here.
\<close>

datatype membership_value = Finite real | NaN

definition calculate_membership :: "real \<Rightarrow> (real \<times> real) list \<Rightarrow> membership_value" where
  "calculate_membership x outputs_of_rules =
     (if length outputs_of_rules = 1 then
        (if x = fst (outputs_of_rules ! 0) then Finite (snd (outputs_of_rules ! 0))
         else Finite 0)
      else if length outputs_of_rules > 1 then
        (if x \<ge> fst (outputs_of_rules ! 0) then
           (case find (\<lambda>i. x \<le> fst (outputs_of_rules ! i)) [1..<length outputs_of_rules] of
              None \<Rightarrow> Finite 0
            | Some i \<Rightarrow>
                (let distance_horizontal = fst (outputs_of_rules ! i) - fst (outputs_of_rules ! (i - 1));
                     distance_vertical = snd (outputs_of_rules ! i) - snd (outputs_of_rules ! (i - 1));
                     distance_of_x = x - fst (outputs_of_rules ! (i - 1))
                 in if distance_horizontal = 0 then NaN
                    else Finite (distance_vertical * (distance_of_x / distance_horizontal)
                                 + snd (outputs_of_rules ! (i - 1)))))
         else Finite 0)
      else Finite 0)"

text \<open>\<open>np.arange(start, stop, step)\<close> for a nonzero step.\<close>

definition np_arange :: "real \<Rightarrow> real \<Rightarrow> real \<Rightarrow> real list" where
  "np_arange start stop step =
     map (\<lambda>i. start + real i * step) [0..<nat \<lceil>(stop - start) / step\<rceil>]"

text \<open>
  The rows \<open>(output, firing_lower, firing_upper)\<close> ordered by \<open>np.argsort\<close> of the
  first column. The sort is modelled as stable; numpy leaves the order of equal outputs
  open.
\<close>

definition sort_rules :: "(real \<times> real \<times> real) list \<Rightarrow> (real \<times> real \<times> real) list" where
  "sort_rules rows = sort_key fst rows"

definition ts_domain :: "(real \<times> real \<times> real) list \<Rightarrow> real \<Rightarrow> real list" where
  "ts_domain outputs_of_rules step =
     np_arange (real_of_int \<lfloor>fst (hd outputs_of_rules) / step\<rfloor> * step)
               (real_of_int \<lfloor>fst (last outputs_of_rules) / step + 1\<rfloor> * step)
               step"

definition lower_points :: "(real \<times> real \<times> real) list \<Rightarrow> (real \<times> real) list" where
  "lower_points outputs_of_rules = map (\<lambda>r. (fst r, fst (snd r))) outputs_of_rules"

definition upper_points :: "(real \<times> real \<times> real) list \<Rightarrow> (real \<times> real) list" where
  "upper_points outputs_of_rules = map (\<lambda>r. (fst r, snd (snd r))) outputs_of_rules"

definition is_nan :: "membership_value \<Rightarrow> bool" where
  "is_nan v = (case v of NaN \<Rightarrow> True | Finite _ \<Rightarrow> False)"

definition the_finite :: "membership_value \<Rightarrow> real" where
  "the_finite v = (case v of Finite r \<Rightarrow> r | NaN \<Rightarrow> 0)"

text \<open>
  \<open>firings\<close> is an N x 2 array of (lower, upper) firings, \<open>outputs\<close> an array of N
  outputs; \<open>np.concatenate\<close> raises ValueError when the row counts differ, and
  \<open>outputs_of_rules[0][0]\<close> raises IndexError without rows. With \<open>step = 0\<close> the float
  division gives an infinity or NaN, on which \<open>math.floor\<close> raises OverflowError or
  ValueError. A NaN membership makes every weight sum NaN, so that the first
  \<open>np.where(domain <= c)\<close> of \<open>karnik_mendel\<close> is empty and IndexError is raised.
\<close>

definition takagi_sugeno_karnik_mendel ::
  "(real \<times> real) list \<Rightarrow> real list \<Rightarrow> real \<Rightarrow> (error + real) option" where
  "takagi_sugeno_karnik_mendel firings outputs step =
     (if length outputs \<noteq> length firings then Some (Inl ValueError)
      else
        let outputs_of_rules = sort_rules (zip outputs firings) in
        if outputs_of_rules = [] then Some (Inl IndexError)
        else if step = 0 then
          (if fst (hd outputs_of_rules) = 0 then Some (Inl ValueError) else Some (Inl OverflowError))
        else
          let domain = ts_domain outputs_of_rules step;
              lmf = map (\<lambda>x. calculate_membership x (lower_points outputs_of_rules)) domain;
              umf = map (\<lambda>x. calculate_membership x (upper_points outputs_of_rules)) domain
          in if list_ex is_nan (lmf @ umf) then Some (Inl IndexError)
             else karnik_mendel (Single (map the_finite lmf)) (Single (map the_finite umf)) domain)"

section \<open>Mamdani consequent\<close>

text \<open>
  Modelled from the spec: the class \<open>Clause\<close> is not part of the sources. Its
  \<open>fuzzy_set\<close> attribute is the sampled membership array of a Type-1 set, or the pair of
  the lower and upper membership arrays of an interval Type-2 set. \<open>nd\<close> are the values
  numpy computes with here: a number, an array, and the two-row matrix that a pair
  of equally long arrays converts to.
\<close>

datatype nd = Num real | Vec "real list" | Mat "real list" "real list"

text \<open>The Python values a rule firing can be: a float, a tuple of floats, anything else.\<close>

datatype firing = FloatFiring real | TupleFiring "real list" | OtherFiring

datatype cut_mf = Cut nd | CutPair nd nd | PyNone

definition np_minimum :: "nd \<Rightarrow> real \<Rightarrow> error + nd" where
  "np_minimum a f =
     (case a of
        Num x \<Rightarrow> Inr (Num (min x f))
      | Vec xs \<Rightarrow> Inr (Vec (map (\<lambda>x. min x f) xs))
      | Mat l u \<Rightarrow>
          (if length l = length u
           then Inr (Mat (map (\<lambda>x. min x f) l) (map (\<lambda>x. min x f) u))
           else Inl ValueError))"

definition nd_index :: "nd \<Rightarrow> nat \<Rightarrow> error + nd" where
  "nd_index a i =
     (case a of
        Num x \<Rightarrow> Inl IndexError
      | Vec xs \<Rightarrow> (if i < length xs then Inr (Num (xs ! i)) else Inl IndexError)
      | Mat l u \<Rightarrow> (if i = 0 then Inr (Vec l) else if i = 1 then Inr (Vec u) else Inl IndexError))"

definition t1_cut :: "nd \<Rightarrow> real \<Rightarrow> error + cut_mf" where
  "t1_cut fuzzy_set rule_firing =
     (case np_minimum fuzzy_set rule_firing of
        Inl e \<Rightarrow> Inl e
      | Inr c \<Rightarrow> Inr (Cut c))"

definition it2_cut :: "nd \<Rightarrow> real list \<Rightarrow> error + cut_mf" where
  "it2_cut fuzzy_set rule_firing =
     (case nd_index fuzzy_set 0 of
        Inl e \<Rightarrow> Inl e
      | Inr lmf \<Rightarrow>
     (case np_minimum lmf (rule_firing ! 0) of
        Inl e \<Rightarrow> Inl e
      | Inr lower \<Rightarrow>
     (case nd_index fuzzy_set 1 of
        Inl e \<Rightarrow> Inl e
      | Inr umf \<Rightarrow>
     (case np_minimum umf (rule_firing ! 1) of
        Inl e \<Rightarrow> Inl e
      | Inr upper \<Rightarrow> Inr (CutPair lower upper)))))"

text \<open>
  \<open>MamdaniConsequent.output\<close>. The \<open>else: raise Exception\<close> belongs to the outer
  \<open>if/elif\<close>; a tuple whose length is not 2 leaves the \<open>elif\<close> branch without a
  \<open>return\<close>, so the method returns \<open>None\<close>.
\<close>

definition mamdani_output :: "nd \<Rightarrow> firing \<Rightarrow> error + cut_mf" where
  "mamdani_output fuzzy_set rule_firing =
     (case rule_firing of
        FloatFiring f \<Rightarrow> t1_cut fuzzy_set f
      | TupleFiring t \<Rightarrow> (if length t = 2 then it2_cut fuzzy_set t else Inr PyNone)
      | OtherFiring \<Rightarrow> Inl PyException)"

section \<open>Takagi-Sugeno inference system\<close>

text \<open>
  A rule of the rule base, as far as \<open>infer\<close> uses it: the consequent's
  \<open>function_parameters\<close> dictionary (in insertion order), its \<open>output\<close> method and
  the antecedent's \<open>fire\<close> method. Both methods may raise. Dictionaries are association
  lists in insertion order; the value of a feature is the list of its slices along the
  last axis, one per sample.
\<close>

record ('v, 'c, 'd, 'f) rule =
  function_parameters :: "(string \<times> real) list"
  consequent_output :: "('v \<times> real) list \<Rightarrow> error + real"
  antecedent_fire :: "('c \<times> 'd) list \<Rightarrow> error + 'f"

text \<open>An instance of \<open>TakagiSugenoInferenceSystem\<close> has one attribute, \<open>_rule_base\<close>.\<close>

record ('v, 'c, 'd, 'f) inference_system =
  rule_base :: "('v, 'c, 'd, 'f) rule list"

text \<open>
  \<open>__cache = {}\<close> is written in the class body: one dictionary, created with the class,
  that \<open>self.__cache\<close> reads and \<open>self.__cache[key] = value\<close> updates for every
  instance. It is therefore a component of the program state and not of an instance.
  \<open>rule_calls\<close> counts the calls of \<open>consequent.output\<close> and \<open>antecedent.fire\<close>; the
  code has no such counter, it is there to observe the evaluations.
\<close>

record program_state =
  cache :: "real list \<rightharpoonup> real"
  rule_calls :: nat

definition get_input_tuple :: "('v, 'c, 'd, 'f) inference_system \<Rightarrow> real list \<Rightarrow> real list" where
  "get_input_tuple self input =
     foldl (\<lambda>in_values r. foldl (\<lambda>acc param. acc @ [param]) in_values
                              (map snd (function_parameters r)))
           input (rule_base self)"

definition is_cached :: "program_state \<Rightarrow> real list \<Rightarrow> bool" where
  "is_cached st input = (case cache st input of None \<Rightarrow> False | Some _ \<Rightarrow> True)"

text \<open>The slice of every entry of a dictionary at sample \<open>i\<close>; IndexError out of range.\<close>

fun take_sample :: "('k \<times> 'a list) list \<Rightarrow> nat \<Rightarrow> error + ('k \<times> 'a) list" where
  "take_sample [] i = Inr []"
| "take_sample ((k, v) # rest) i =
     (if i < length v
      then (case take_sample rest i of
              Inl e \<Rightarrow> Inl e
            | Inr single \<Rightarrow> Inr ((k, v ! i) # single))
      else Inl IndexError)"

text \<open>The loop over the rule base; the last component is the call counter.\<close>

fun eval_rules ::
  "('v, 'c, 'd, 'f) rule list \<Rightarrow> ('v \<times> real) list \<Rightarrow> ('c \<times> 'd) list \<Rightarrow>
     real list \<Rightarrow> 'f list \<Rightarrow> nat \<Rightarrow> (error + real list \<times> 'f list) \<times> nat" where
  "eval_rules [] single_measures single_features outputs firings calls =
     (Inr (outputs, firings), calls)"
| "eval_rules (r # rest) single_measures single_features outputs firings calls =
     (case consequent_output r single_measures of
        Inl e \<Rightarrow> (Inl e, calls + 1)
      | Inr out \<Rightarrow>
          (case antecedent_fire r single_features of
             Inl e \<Rightarrow> (Inl e, calls + 2)
           | Inr fi \<Rightarrow>
               eval_rules rest single_measures single_features
                 (outputs @ [out]) (firings @ [fi]) (calls + 2)))"

text \<open>\<open>np.argsort\<close>, modelled as a stable sort of the indices.\<close>

definition argsort :: "real list \<Rightarrow> nat list" where
  "argsort xs = map snd (sort_key fst (zip xs [0..<length xs]))"

definition infer_sample ::
  "('v, 'c, 'd, 'f) inference_system \<Rightarrow> ('f list \<Rightarrow> real list \<Rightarrow> error + real) \<Rightarrow>
     ('c \<times> 'd list) list \<Rightarrow> ('v \<times> real list) list \<Rightarrow> nat \<Rightarrow> program_state \<Rightarrow>
     (error + real) \<times> program_state" where
  "infer_sample self defuzzification_method features_dict measures_dict i st =
     (case take_sample features_dict i of
        Inl e \<Rightarrow> (Inl e, st)
      | Inr single_features \<Rightarrow>
     (case take_sample measures_dict i of
        Inl e \<Rightarrow> (Inl e, st)
      | Inr single_measures \<Rightarrow>
     (let input_tuple = get_input_tuple self (map snd single_measures) in
      if is_cached st input_tuple then (Inr (the (cache st input_tuple)), st)
      else
        (case eval_rules (rule_base self) single_measures single_features [] [] (rule_calls st) of
           (Inl e, calls) \<Rightarrow> (Inl e, st\<lparr>rule_calls := calls\<rparr>)
         | (Inr (outputs, firings), calls) \<Rightarrow>
             (let ind = argsort outputs;
                  outputs_sorted = map (\<lambda>j. outputs ! j) ind;
                  firings_sorted = map (\<lambda>j. firings ! j) ind
              in case defuzzification_method firings_sorted outputs_sorted of
                   Inl e \<Rightarrow> (Inl e, st\<lparr>rule_calls := calls\<rparr>)
                 | Inr conclusion \<Rightarrow>
                     (Inr conclusion,
                      st\<lparr>cache := (cache st)(input_tuple \<mapsto> conclusion),
                         rule_calls := calls\<rparr>))))))"

fun infer_loop ::
  "('v, 'c, 'd, 'f) inference_system \<Rightarrow> ('f list \<Rightarrow> real list \<Rightarrow> error + real) \<Rightarrow>
     ('c \<times> 'd list) list \<Rightarrow> ('v \<times> real list) list \<Rightarrow> nat list \<Rightarrow> real list \<Rightarrow>
     program_state \<Rightarrow> (error + real list) \<times> program_state" where
  "infer_loop self defuzzification_method features_dict measures_dict [] conclusions st =
     (Inr conclusions, st)"
| "infer_loop self defuzzification_method features_dict measures_dict (i # rest) conclusions st =
     (case infer_sample self defuzzification_method features_dict measures_dict i st of
        (Inl e, st') \<Rightarrow> (Inl e, st')
      | (Inr conclusion, st') \<Rightarrow>
          infer_loop self defuzzification_method features_dict measures_dict rest
            (conclusions @ [conclusion]) st')"

text \<open>
  \<open>infer\<close>. The three \<open>isinstance\<close> checks hold by typing. The number of samples is the
  length of the first measure; without measures \<open>list(measures.values())[0]\<close> raises
  IndexError.
\<close>

definition infer ::
  "('v, 'c, 'd, 'f) inference_system \<Rightarrow> ('f list \<Rightarrow> real list \<Rightarrow> error + real) \<Rightarrow>
     ('c \<times> 'd list) list \<Rightarrow> ('v \<times> real list) list \<Rightarrow> program_state \<Rightarrow>
     (error + real list) \<times> program_state" where
  "infer self defuzzification_method features_dict measures_dict st =
     (case measures_dict of
        [] \<Rightarrow> (Inl IndexError, st)
      | (k, v) # _ \<Rightarrow>
          infer_loop self defuzzification_method features_dict measures_dict [0..<length v] [] st)"

section \<open>Notions used in the analysis\<close>

text \<open>The value \<open>np.average\<close> returns when it does not raise.\<close>

definition wavg :: "real list \<Rightarrow> real list \<Rightarrow> real" where
  "wavg d w = sum_list (map2 (*) d w) / sum_list w"

text \<open>The weights \<open>__find_c_minute\<close> builds for switch index \<open>k\<close>, bias included.\<close>

definition km_weights :: "real list \<Rightarrow> real list \<Rightarrow> nat \<Rightarrow> real list" where
  "km_weights under_mf over_mf k = map (\<lambda>w. w + bias) (take (k + 1) under_mf @ drop (k + 1) over_mf)"

definition switch_index :: "real \<Rightarrow> real list \<Rightarrow> nat" where
  "switch_index c d = last (filter (\<lambda>i. d ! i \<le> c) [0..<length d])"

definition km_step :: "real list \<Rightarrow> real list \<Rightarrow> real list \<Rightarrow> real \<Rightarrow> real" where
  "km_step under_mf over_mf d c = wavg d (km_weights under_mf over_mf (switch_index c d))"

text \<open>
  Arrays of the length of a nonempty domain whose biased weights are strictly positive,
  and a strictly positive weight array \<open>thetas\<close> of that length.
\<close>

definition km_wf :: "real list \<Rightarrow> real list \<Rightarrow> real list \<Rightarrow> bool" where
  "km_wf under_mf over_mf d \<longleftrightarrow>
     d \<noteq> [] \<and> length under_mf = length d \<and> length over_mf = length d \<and>
     (\<forall>i<length d. 0 < under_mf ! i + bias) \<and> (\<forall>i<length d. 0 < over_mf ! i + bias)"

definition thetas_wf :: "real list \<Rightarrow> real list \<Rightarrow> bool" where
  "thetas_wf thetas d \<longleftrightarrow> length thetas = length d \<and> (\<forall>i<length d. 0 < thetas ! i)"

text \<open>
  The candidates of one side of the algorithm: number 0 is the average weighted by
  \<open>thetas\<close>, each further one comes from its predecessor by \<open>__find_c_minute\<close>.
  The loop leaves at \<open>J\<close> when candidates \<open>J\<close> and \<open>J + 1\<close> are the first consecutive
  pair within machine epsilon.
\<close>

definition candidates :: "real list \<Rightarrow> real list \<Rightarrow> real list \<Rightarrow> real list \<Rightarrow> nat \<Rightarrow> real" where
  "candidates under_mf over_mf d thetas j = ((km_step under_mf over_mf d) ^^ j) (wavg d thetas)"

definition exits_at :: "(nat \<Rightarrow> real) \<Rightarrow> nat \<Rightarrow> bool" where
  "exits_at cand J \<longleftrightarrow>
     \<bar>cand (Suc J) - cand J\<bar> \<le> float_eps \<and> (\<forall>i<J. \<bar>cand (Suc i) - cand i\<bar> > float_eps)"



text \<open>
  The value \<open>calculate_membership\<close> computes from the points \<open>i - 1\<close> and \<open>i\<close>:
  the vertical distance times the horizontal proportion of \<open>x\<close>, above point \<open>i - 1\<close>.
\<close>

definition interpolate :: "(real \<times> real) list \<Rightarrow> nat \<Rightarrow> real \<Rightarrow> real" where
  "interpolate ps i x =
     (snd (ps ! i) - snd (ps ! (i - 1))) * ((x - fst (ps ! (i - 1))) / (fst (ps ! i) - fst (ps ! (i - 1))))
       + snd (ps ! (i - 1))"

section \<open>The iteration as the specification words it\<close>









text \<open>
  The domain of the Takagi-Sugeno variant as the specification words it: from the floor
  of the minimum sorted output to the floor + 1 of the maximum, at resolution \<open>step\<close>.
\<close>

definition spec_domain :: "(real \<times> real \<times> real) list \<Rightarrow> real \<Rightarrow> real list" where
  "spec_domain outputs_of_rules step =
     np_arange (real_of_int \<lfloor>fst (hd outputs_of_rules)\<rfloor>)
               (real_of_int (\<lfloor>fst (last outputs_of_rules)\<rfloor> + 1)) step"

text \<open>
  The cache key as the specification words it: the measured values of the sample, then
  the consequent coefficients of every rule, flattened in rule-base order.
\<close>

definition spec_cache_key :: "('v, 'c, 'd, 'f) inference_system \<Rightarrow> real list \<Rightarrow> real list" where
  "spec_cache_key self measured =
     measured @ concat (map (\<lambda>r. map snd (function_parameters r)) (rule_base self))"

text \<open>
  A rule with one consequent coefficient \<open>a\<close>, whose output is \<open>a\<close> times the first
  measured value and whose antecedent fires at a fixed degree; and the initial program
  state, in which the cache is empty.
\<close>

definition linear_rule :: "real \<Rightarrow> real \<Rightarrow> (string, string, real, real) rule" where
  "linear_rule a degree =
     \<lparr>function_parameters = [(''a'', a)],
      consequent_output = (\<lambda>single_measures. Inr (a * snd (hd single_measures))),
      antecedent_fire = (\<lambda>single_features. Inr degree)\<rparr>"

definition initial_state :: program_state where
  "initial_state = \<lparr>cache = Map.empty, rule_calls = 0\<rparr>"

text \<open>
  Two instances over rules with the same consequent coefficients 1 and 2: in the first
  the antecedent of the first rule fires, in the second that of the second rule.
\<close>

definition instance_a :: "(string, string, real, real) inference_system" where
  "instance_a = \<lparr>rule_base = [linear_rule 1 1, linear_rule 2 0]\<rparr>"

definition instance_b :: "(string, string, real, real) inference_system" where
  "instance_b = \<lparr>rule_base = [linear_rule 1 0, linear_rule 2 1]\<rparr>"

section \<open>Weighted averages and the switch index\<close>

lemma bias_pos: "0 < bias"
  by (simp add: bias_def)

lemma sorted_le_last: "sorted xs \<Longrightarrow> x \<in> set xs \<Longrightarrow> x \<le> last (xs::nat list)"
  by (induction xs) auto

lemma switch_index_props:
  assumes "j < length d" "d ! j \<le> c"
  shows "switch_index c d < length d" "d ! switch_index c d \<le> c" "j \<le> switch_index c d"
proof -
  let ?F = "filter (\<lambda>i. d ! i \<le> c) [0..<length d]"
  have mem: "j \<in> set ?F" using assms by simp
  have ne: "?F \<noteq> []" using assms by (auto simp: filter_empty_conv)
  have "last ?F \<in> set ?F" using ne by (rule last_in_set)
  then show "switch_index c d < length d" "d ! switch_index c d \<le> c"
    by (simp_all add: switch_index_def)
  have "sorted ?F" by (simp add: sorted_wrt_filter)
  then show "j \<le> switch_index c d"
    unfolding switch_index_def using mem by (rule sorted_le_last)
qed

lemma find_k_Inr:
  assumes "j < length d" "d ! j \<le> c"
  shows "find_k c d = Inr (switch_index c d)"
proof -
  have "filter (\<lambda>i. d ! i \<le> c) [0..<length d] \<noteq> []"
    using assms by (auto simp: filter_empty_conv)
  then show ?thesis
    by (simp add: find_k_def switch_index_def split: list.splits)
qed

lemma find_k_Inl:
  assumes "\<forall>j<length d. \<not> d ! j \<le> c"
  shows "find_k c d = Inl IndexError"
proof -
  have "filter (\<lambda>i. d ! i \<le> c) [0..<length d] = []"
    using assms by (simp add: filter_empty_conv)
  then show ?thesis by (simp add: find_k_def)
qed

lemma length_km_weights:
  "length under_mf = n \<Longrightarrow> length over_mf = n \<Longrightarrow> k < n \<Longrightarrow> length (km_weights under_mf over_mf k) = n"
  by (simp add: km_weights_def)

lemma nth_km_weights:
  assumes "length under_mf = n" "length over_mf = n" "k < n" "i < n"
  shows "km_weights under_mf over_mf k ! i = (if i \<le> k then under_mf ! i else over_mf ! i) + bias"
proof -
  have len: "length (take (k + 1) under_mf @ drop (k + 1) over_mf) = n" using assms by simp
  have "(take (k + 1) under_mf @ drop (k + 1) over_mf) ! i = (if i \<le> k then under_mf ! i else over_mf ! i)"
    using assms by (auto simp: nth_append)
  then show ?thesis
    unfolding km_weights_def using len assms(4) by (simp add: nth_map del: map_append)
qed

lemma sum_list_map2_nth:
  "length xs = length ys \<Longrightarrow>
     sum_list (map2 (*) xs ys) = (\<Sum>i<length xs. xs ! i * (ys ! i :: real))"
  by (simp add: sum_list_sum_nth atLeast0LessThan)

lemma sum_list_nth: "sum_list ws = (\<Sum>i<length ws. (ws ! i :: real))"
  by (simp add: sum_list_sum_nth atLeast0LessThan)

lemma sum_list_pos_nth:
  assumes "ws \<noteq> []" "\<forall>i<length ws. 0 < (ws ! i :: real)"
  shows "0 < sum_list ws"
proof -
  have "0 < (\<Sum>i<length ws. ws ! i)"
    using assms by (intro sum_pos) auto
  then show ?thesis by (simp add: sum_list_nth)
qed

lemma wavg_less_iff:
  assumes "length w = length d" "0 < sum_list w"
  shows "wavg d w < y \<longleftrightarrow> (\<Sum>i<length d. (d ! i - y) * w ! i) < 0"
proof -
  have "(\<Sum>i<length d. (d ! i - y) * w ! i) = sum_list (map2 (*) d w) - y * sum_list w"
    using assms(1)
    by (simp add: sum_list_map2_nth sum_list_nth[of w] left_diff_distrib sum_subtractf sum_distrib_left)
  moreover have "wavg d w < y \<longleftrightarrow> sum_list (map2 (*) d w) < y * sum_list w"
    using assms(2) by (simp add: wavg_def pos_divide_less_eq)
  ultimately show ?thesis by simp
qed

lemma wavg_ge_iff:
  assumes "length w = length d" "0 < sum_list w"
  shows "y \<le> wavg d w \<longleftrightarrow> 0 \<le> (\<Sum>i<length d. (d ! i - y) * w ! i)"
  using wavg_less_iff[OF assms, of y] by linarith

lemma wavg_lower:
  assumes "length w = length d" "d \<noteq> []" "\<forall>i<length w. 0 < w ! i" "\<forall>i<length d. y \<le> d ! i"
  shows "y \<le> wavg d w"
proof -
  have pos: "0 < sum_list w" using assms by (intro sum_list_pos_nth) auto
  have "0 \<le> (\<Sum>i<length d. (d ! i - y) * w ! i)"
    using assms by (intro sum_nonneg mult_nonneg_nonneg) (auto simp: less_imp_le)
  then show ?thesis using wavg_ge_iff[OF assms(1) pos] by simp
qed

lemma km_weights_pos:
  assumes "km_wf under_mf over_mf d" "k < length d" "i < length d"
  shows "0 < km_weights under_mf over_mf k ! i"
  using assms by (simp add: km_wf_def nth_km_weights[where n = "length d"])

lemma km_weights_sum_pos:
  assumes "km_wf under_mf over_mf d" "k < length d"
  shows "0 < sum_list (km_weights under_mf over_mf k)"
proof -
  have len: "length (km_weights under_mf over_mf k) = length d"
    using assms by (simp add: km_wf_def length_km_weights)
  have "d \<noteq> []" using assms by (simp add: km_wf_def)
  then have "km_weights under_mf over_mf k \<noteq> []" using len by auto
  then show ?thesis
    using km_weights_pos[OF assms] len by (intro sum_list_pos_nth) auto
qed

lemma find_c_minute_Inr:
  assumes wf: "km_wf under_mf over_mf d" and j: "j < length d" "d ! j \<le> c"
  shows "find_c_minute c under_mf over_mf d = Inr (km_step under_mf over_mf d c)"
proof -
  let ?k = "switch_index c d"
  have k: "?k < length d" using j by (rule switch_index_props)
  have fk: "find_k c d = Inr ?k" using j by (rule find_k_Inr)
  have lu: "length under_mf = length d" and lo: "length over_mf = length d"
    using wf by (simp_all add: km_wf_def)
  have a1: "np_assign (min (?k + 1) (length d)) (take (?k + 1) under_mf) = Inr (take (?k + 1) under_mf)"
    using k lu by (simp add: np_assign_def)
  have a2: "np_assign (length d - (?k + 1)) (drop (?k + 1) over_mf) = Inr (drop (?k + 1) over_mf)"
    using k lo by (simp add: np_assign_def)
  have len: "length (km_weights under_mf over_mf ?k) = length d"
    using k lu lo by (simp add: length_km_weights)
  have pos: "0 < sum_list (km_weights under_mf over_mf ?k)"
    using wf k by (rule km_weights_sum_pos)
  have "np_average d (km_weights under_mf over_mf ?k) = Inr (wavg d (km_weights under_mf over_mf ?k))"
    using len pos by (simp add: np_average_def wavg_def)
  then show ?thesis
    using a1 a2 by (simp add: find_c_minute_def fk km_step_def km_weights_def)
qed

lemma km_step_lower:
  assumes wf: "km_wf under_mf over_mf d" and j: "j < length d" "d ! j \<le> c"
    and y: "\<forall>i<length d. y \<le> d ! i"
  shows "y \<le> km_step under_mf over_mf d c"
proof -
  let ?k = "switch_index c d"
  have k: "?k < length d" using j by (rule switch_index_props)
  have len: "length (km_weights under_mf over_mf ?k) = length d"
    using k wf by (simp add: km_wf_def length_km_weights)
  show ?thesis
    unfolding km_step_def
    using wf len km_weights_pos[OF wf k] y
    by (intro wavg_lower) (auto simp: km_wf_def)
qed







lemma find_y_loop_exit:
  assumes inv: "\<And>c. P c \<Longrightarrow> F c = Inr (T c) \<and> P (T c)"
    and p: "P p"
    and ex: "\<bar>(T ^^ Suc J) p - (T ^^ J) p\<bar> \<le> float_eps"
    and first: "\<forall>i<J. \<bar>(T ^^ Suc i) p - (T ^^ i) p\<bar> > float_eps"
  shows "find_y_loop F p (T p) = Some (Inr ((T ^^ Suc J) p))"
  using p ex first
proof (induction J arbitrary: p)
  case 0
  then show ?case by (subst find_y_loop.simps) simp
next
  case (Suc J)
  have gt: "\<bar>T p - p\<bar> > float_eps" using Suc.prems(3) by force
  have Tp: "P (T p)" and FT: "F (T p) = Inr (T (T p))"
    using inv[OF Suc.prems(1)] inv by auto
  have sh: "(T ^^ Suc i) (T p) = (T ^^ Suc (Suc i)) p" for i
    by (simp add: funpow_swap1)
  have sh0: "(T ^^ i) (T p) = (T ^^ Suc i) p" for i
    by (simp add: funpow_swap1)
  have ih: "find_y_loop F (T p) (T (T p)) = Some (Inr ((T ^^ Suc J) (T p)))"
  proof (rule Suc.IH[OF Tp])
    show "\<bar>(T ^^ Suc J) (T p) - (T ^^ J) (T p)\<bar> \<le> float_eps"
      using Suc.prems(2) unfolding sh sh0 .
    show "\<forall>i<J. float_eps < \<bar>(T ^^ Suc i) (T p) - (T ^^ i) (T p)\<bar>"
      unfolding sh sh0 using Suc.prems(3) by auto
  qed
  show ?case
    by (subst find_y_loop.simps) (simp add: gt FT ih sh del: funpow.simps)
qed

lemma float_eps_pos: "0 < float_eps"
  by (simp add: float_eps_def)

lemma sorted_first_le: "sorted d \<Longrightarrow> i < length d \<Longrightarrow> d ! 0 \<le> (d ! i :: real)"
  by (rule sorted_nth_mono) simp_all

lemma np_average_thetas:
  assumes "thetas_wf thetas d" "d \<noteq> []"
  shows "np_average d thetas = Inr (wavg d thetas)"
proof -
  have "thetas \<noteq> []" using assms by (auto simp: thetas_wf_def)
  then have "0 < sum_list thetas"
    using assms by (intro sum_list_pos_nth) (auto simp: thetas_wf_def)
  then show ?thesis using assms by (simp add: np_average_def wavg_def thetas_wf_def)
qed

lemma wavg_thetas_lower:
  assumes "thetas_wf thetas d" "d \<noteq> []" "sorted d"
  shows "d ! 0 \<le> wavg d thetas"
  using assms by (intro wavg_lower) (auto simp: thetas_wf_def sorted_first_le)

lemma km_inv:
  assumes wf: "km_wf under_mf over_mf d" and srt: "sorted d" and c: "d ! 0 \<le> c"
  shows "find_c_minute c under_mf over_mf d = Inr (km_step under_mf over_mf d c)"
    and "d ! 0 \<le> km_step under_mf over_mf d c"
proof -
  have n: "0 < length d" using wf by (simp add: km_wf_def)
  show "find_c_minute c under_mf over_mf d = Inr (km_step under_mf over_mf d c)"
    using wf n c by (rule find_c_minute_Inr)
  show "d ! 0 \<le> km_step under_mf over_mf d c"
    using wf n c by (rule km_step_lower) (simp add: srt sorted_first_le)
qed










lemma find_y_result:
  assumes wf: "km_wf under_mf over_mf d" and srt: "sorted d" and th: "thetas_wf thetas d"
    and ex: "exits_at (candidates under_mf over_mf d thetas) J"
  shows "find_y (\<lambda>c dom. find_c_minute c under_mf over_mf dom) d thetas =
           Some (Inr (candidates under_mf over_mf d thetas (Suc J)))"
proof -
  let ?T = "km_step under_mf over_mf d"
  let ?c0 = "wavg d thetas"
  have ne: "d \<noteq> []" using wf by (simp add: km_wf_def)
  have avg: "np_average d thetas = Inr ?c0" using th ne by (rule np_average_thetas)
  have c0: "d ! 0 \<le> ?c0" using th ne srt by (rule wavg_thetas_lower)
  have loop: "find_y_loop (\<lambda>c. find_c_minute c under_mf over_mf d) ?c0 (?T ?c0) =
                Some (Inr ((?T ^^ Suc J) ?c0))"
  proof (rule find_y_loop_exit[where P = "\<lambda>c. d ! 0 \<le> c"])
    show "\<And>c. d ! 0 \<le> c \<Longrightarrow>
            find_c_minute c under_mf over_mf d = Inr (?T c) \<and> d ! 0 \<le> ?T c"
      using km_inv[OF wf srt] by blast
    show "d ! 0 \<le> ?c0" by (rule c0)
    show "\<bar>(?T ^^ Suc J) ?c0 - (?T ^^ J) ?c0\<bar> \<le> float_eps"
      using ex by (simp add: exits_at_def candidates_def)
    show "\<forall>i<J. float_eps < \<bar>(?T ^^ Suc i) ?c0 - (?T ^^ i) ?c0\<bar>"
      using ex by (simp add: exits_at_def candidates_def)
  qed
  show ?thesis
    unfolding find_y_def avg
    using km_inv(1)[OF wf srt c0] loop by (simp add: candidates_def)
qed


section \<open>The union and the Karnik-Mendel result\<close>














lemma map2_add_self: "map2 (+) m m = map (\<lambda>x. x + x) (m :: real list)"
  by (induction m) simp_all

lemma km_degenerate:
  assumes srt: "sorted d" and ne: "d \<noteq> []" and len: "length m = length d"
    and nn: "\<forall>x \<in> set m. 0 \<le> x"
  shows "karnik_mendel (Single m) (Single m) d = Some (Inr (wavg d (map (\<lambda>x. x + bias) m)))"
proof -
  let ?th = "map (\<lambda>x. x + bias) m"
  have mne: "m \<noteq> []" using ne len by auto
  have un: "membership_func_union (Single m) = Inr m"
    using mne by (simp add: membership_func_union_def union_rows_def np_assign_def np_max_axis0_def)
  have bc: "np_broadcast2 (+) m m = Inr (map2 (+) m m)"
    by (simp only: np_broadcast2_def refl if_True)
  have th: "map (\<lambda>t. t / 2 + bias) (map2 (+) m m) = ?th"
    by (simp add: map2_add_self)
  have pos: "\<forall>i<length d. 0 < m ! i + bias"
    using nn len bias_pos by (auto intro: add_nonneg_pos)
  have wf: "km_wf m m d" using ne len pos by (simp add: km_wf_def)
  have thw: "thetas_wf ?th d" using len pos by (simp add: thetas_wf_def)
  have step: "km_step m m d c = wavg d ?th" for c
    by (simp add: km_step_def km_weights_def)
  have ex: "exits_at (candidates m m d ?th) 0"
    using float_eps_pos by (simp add: exits_at_def candidates_def step)
  have fy: "find_y (\<lambda>c dom. find_c_minute c m m dom) d ?th = Some (Inr (wavg d ?th))"
    using find_y_result[OF wf srt thw ex] by (simp add: candidates_def step)
  show ?thesis
    by (simp only: karnik_mendel_def un bc th fy Let_def sum.case option.case) simp
qed

lemma center_of_gravity_single:
  assumes "length m = length d" "sum_list m \<noteq> 0"
  shows "center_of_gravity d (Single m) = Inr (wavg d m)"
proof -
  have "m \<noteq> []" using assms(2) by auto
  then have "membership_func_union (Single m) = Inr m"
    by (simp add: membership_func_union_def union_rows_def np_assign_def np_max_axis0_def)
  then show ?thesis using assms by (simp add: center_of_gravity_def np_average_def wavg_def)
qed

lemma sum_list_map2_bias:
  "length m = length d \<Longrightarrow>
     sum_list (map2 (*) d (map (\<lambda>x. x + b) m)) = sum_list (map2 (*) d m) + b * sum_list (d :: real list)"
proof (induction d arbitrary: m)
  case Nil
  then show ?case by simp
next
  case (Cons x d)
  then obtain y m' where "m = y # m'" by (cases m) auto
  then show ?case using Cons by (simp add: algebra_simps)
qed

lemma sum_list_map_bias: "sum_list (map (\<lambda>x. x + b) m) = sum_list m + real (length m) * (b :: real)"
  by (induction m) (simp_all add: algebra_simps)

lemma biased_centroid_gap:
  assumes len: "length m = length d" and ne: "d \<noteq> []" and S: "0 < sum_list m"
  shows "wavg d (map (\<lambda>x. x + bias) m) - wavg d m =
           (real (length d) * bias / (sum_list m + real (length d) * bias))
             * (sum_list d / real (length d) - wavg d m)"
proof -
  define N where "N = sum_list (map2 (*) d m)"
  define S' where "S' = sum_list m"
  define X where "X = sum_list d"
  define n where "n = real (length d)"
  have n: "0 < n" using ne by (simp add: n_def)
  have Sp: "0 < S'" using S by (simp add: S'_def)
  have b: "0 < bias" by (rule bias_pos)
  have den: "0 < S' + n * bias" using Sp n b by (simp add: add_pos_nonneg)
  have "wavg d (map (\<lambda>x. x + bias) m) = (N + bias * X) / (S' + n * bias)"
    using len by (simp add: wavg_def sum_list_map2_bias sum_list_map_bias N_def S'_def X_def n_def)
  moreover have "wavg d m = N / S'" by (simp add: wavg_def N_def S'_def)
  moreover have "(N + bias * X) / (S' + n * bias) - N / S' =
        (n * bias / (S' + n * bias)) * (X / n - N / S')"
  proof -
    have n0: "n \<noteq> 0" and S0: "S' \<noteq> 0" and d0: "S' + n * bias \<noteq> 0"
      using n Sp den by simp_all
    have "(N + bias * X) / (S' + n * bias) - N / S' =
            ((N + bias * X) * S' - N * (S' + n * bias)) / ((S' + n * bias) * S')"
      using S0 d0 by (simp add: diff_frac_eq)
    also have "\<dots> = bias * (X * S' - N * n) / ((S' + n * bias) * S')"
      by (simp add: algebra_simps)
    also have "\<dots> = (n * bias / (S' + n * bias)) * ((X * S' - N * n) / (n * S'))"
      using n0 by simp
    also have "(X * S' - N * n) / (n * S') = X / n - N / S'"
      using n0 S0 by (simp add: diff_frac_eq)
    finally show ?thesis .
  qed
  ultimately show ?thesis by (simp add: S'_def X_def n_def)
qed


section \<open>Karnik-Mendel: the claims\<close>








text \<open>
  Claim C3, as amended. With the same nonnegative, not-all-zero array \<open>m\<close> as lower
  and upper membership, \<open>karnik_mendel\<close> returns the centre of gravity of the biased
  array \<open>m + 1e-10\<close>. It differs from \<open>center_of_gravity(domain, m)\<close> by
  \<open>n * 1e-10 / (sum(m) + n * 1e-10)\<close> times the distance between the mean of the
  domain and that centre of gravity.
\<close>

theorem degenerate_karnik_mendel_is_biased_centroid:
  assumes "sorted domain" and "domain \<noteq> []" and "length m = length domain"
    and "\<forall>x \<in> set m. 0 \<le> x" and "0 < sum_list m"
  shows "karnik_mendel (Single m) (Single m) domain
           = Some (center_of_gravity domain (Single (map (\<lambda>x. x + bias) m))) \<and>
         karnik_mendel (Single m) (Single m) domain
           = Some (Inr (wavg domain (map (\<lambda>x. x + bias) m))) \<and>
         center_of_gravity domain (Single m) = Inr (wavg domain m) \<and>
         wavg domain (map (\<lambda>x. x + bias) m) - wavg domain m =
           (real (length domain) * bias / (sum_list m + real (length domain) * bias))
             * (sum_list domain / real (length domain) - wavg domain m)"
proof -
  have km: "karnik_mendel (Single m) (Single m) domain
           = Some (Inr (wavg domain (map (\<lambda>x. x + bias) m)))"
    using assms(1-4) by (rule km_degenerate)
  have "0 < sum_list (map (\<lambda>x. x + bias) m)"
    using assms(2,3,5) bias_pos by (simp add: sum_list_map_bias add_pos_nonneg)
  then have "center_of_gravity domain (Single (map (\<lambda>x. x + bias) m))
           = Inr (wavg domain (map (\<lambda>x. x + bias) m))"
    using assms(3) by (intro center_of_gravity_single) simp_all
  moreover have "center_of_gravity domain (Single m) = Inr (wavg domain m)"
    using assms(3,5) by (intro center_of_gravity_single) simp_all
  ultimately show ?thesis
    using km biased_centroid_gap[OF assms(3,2,5)] by simp
qed

text \<open>The theorem at a concrete input.\<close>

theorem degenerate_karnik_mendel_is_biased_centroid_witness:
  "sorted [0, 1, 5 :: real] \<and> [0, 1, 5 :: real] \<noteq> [] \<and>
   length [0, 1, 0 :: real] = length [0, 1, 5 :: real] \<and>
   list_all (\<lambda>x. 0 \<le> x) [0, 1, 0 :: real] \<and> 0 < sum_list [0, 1, 0 :: real] \<and>
   karnik_mendel (Single [0, 1, 0]) (Single [0, 1, 0]) [0, 1, 5]
     = Some (Inr (wavg [0, 1, 5] (map (\<lambda>x. x + bias) [0, 1, 0]))) \<and>
   center_of_gravity [0, 1, 5] (Single [0, 1, 0]) = Inr (wavg [0, 1, 5] [0, 1, 0]) \<and>
   wavg [0, 1, 5] (map (\<lambda>x. x + bias) [0, 1, 0]) = 10000000006 / 10000000003 \<and>
   wavg [0, 1, 5] [0, 1, 0] = 1"
proof -
  have h1: "sorted [0, 1, 5 :: real]" by simp
  have h2: "[0, 1, 5 :: real] \<noteq> []" by simp
  have h3: "length [0, 1, 0 :: real] = length [0, 1, 5 :: real]" by simp
  have h4: "\<forall>x \<in> set [0, 1, 0 :: real]. 0 \<le> x" by simp
  have h5: "0 < sum_list [0, 1, 0 :: real]" by simp
  have v: "wavg [0, 1, 5] (map (\<lambda>x. x + bias) [0, 1, 0]) = 10000000006 / 10000000003"
    by (simp add: wavg_def bias_def)
  have w: "wavg [0, 1, 5] [0, 1, 0] = 1" by (simp add: wavg_def)
  have h4': "list_all (\<lambda>x. 0 \<le> x) [0, 1, 0 :: real]" by simp
  note t = degenerate_karnik_mendel_is_biased_centroid[OF h1 h2 h3 h4 h5]
  show ?thesis
    by (intro conjI h1 h2 h3 h4' h5 v w t[THEN conjunct2, THEN conjunct1]
          t[THEN conjunct2, THEN conjunct2, THEN conjunct1])
qed

text \<open>
  Claim C3 as stated fails: for the memberships \<open>[1e-10, 0]\<close> over the domain
  \<open>[0, 1]\<close> the centre of gravity is 0 and \<open>karnik_mendel\<close> returns 1/3.
\<close>

theorem degenerate_karnik_mendel_counterexample:
  "karnik_mendel (Single [1 / 10 ^ 10, 0]) (Single [1 / 10 ^ 10, 0]) [0, 1] = Some (Inr (1 / 3)) \<and>
   center_of_gravity [0, 1] (Single [1 / 10 ^ 10, 0]) = Inr 0"
proof -
  have "karnik_mendel (Single [1 / 10 ^ 10, 0]) (Single [1 / 10 ^ 10, 0]) [0, 1]
          = Some (Inr (wavg [0, 1] (map (\<lambda>x. x + bias) [1 / 10 ^ 10, 0])))"
    by (rule km_degenerate) simp_all
  moreover have "wavg [0, 1] (map (\<lambda>x. x + bias) [1 / 10 ^ 10, 0]) = 1 / 3"
    by (simp add: wavg_def bias_def)
  moreover have "center_of_gravity [0, 1] (Single [1 / 10 ^ 10, 0]) = Inr (wavg [0, 1] [1 / 10 ^ 10, 0])"
    by (rule center_of_gravity_single) simp_all
  moreover have "wavg [0, 1] [1 / 10 ^ 10, 0] = 0" by (simp add: wavg_def)
  ultimately show ?thesis by simp
qed


section \<open>Weighted average, interpolation and the Mamdani cut\<close>

lemma sum_list_map2_replicate:
  "sum_list (map2 (*) xs (replicate (length xs) (w::real))) = sum_list xs * w"
  by (induction xs) (simp_all add: algebra_simps)

lemma weighted_average_general:
  assumes "length firings = length outputs" "(\<Sum>f\<leftarrow>firings. f + bias) \<noteq> 0"
  shows "weighted_average firings outputs =
      Inr ((\<Sum>(out, f)\<leftarrow>zip outputs firings. out * (f + bias)) / (\<Sum>f\<leftarrow>firings. f + bias))"
proof -
  have "map2 (*) outputs (map (\<lambda>f. f + bias) firings)
          = map (\<lambda>(out, f). out * (f + bias)) (zip outputs firings)"
    by (auto simp: zip_map2)
  then show ?thesis using assms by (simp add: weighted_average_def np_average_def)
qed

lemma weighted_average_uniform:
  assumes "outputs \<noteq> []" "firings = replicate (length outputs) c" "c \<noteq> 0" "0 \<le> c"
  shows "weighted_average firings outputs = Inr (sum_list outputs / real (length outputs))"
proof -
  have w: "map (\<lambda>f. f + bias) firings = replicate (length outputs) (c + bias)"
    using assms by simp
  have s: "sum_list (replicate (length outputs) (c + bias)) = real (length outputs) * (c + bias)"
    by (simp add: sum_list_replicate)
  have pos: "c + bias > 0" using assms bias_pos by simp
  have n: "real (length outputs) > 0" using assms by simp
  show ?thesis
    unfolding weighted_average_def np_average_def w s
    using pos n by (simp add: sum_list_map2_replicate)
qed

text \<open>
  Claim C8. \<open>weighted_average(firings, outputs)\<close> is the average of the outputs
  weighted by \<open>firing + 1e-10\<close>. Firings are membership degrees, so a uniform nonzero
  firing \<open>c\<close> is positive, and then the result is the arithmetic mean of the outputs.
\<close>

theorem weighted_average_is_biased_average:
  "(length firings = length outputs \<and> (\<Sum>f\<leftarrow>firings. f + bias) \<noteq> 0 \<longrightarrow>
      weighted_average firings outputs =
        Inr ((\<Sum>(out, f)\<leftarrow>zip outputs firings. out * (f + bias)) / (\<Sum>f\<leftarrow>firings. f + bias))) \<and>
   (outputs \<noteq> [] \<and> firings = replicate (length outputs) c \<and> c \<noteq> 0 \<and> 0 \<le> c \<longrightarrow>
      weighted_average firings outputs = Inr (sum_list outputs / real (length outputs)))"
  using weighted_average_general weighted_average_uniform by blast

text \<open>The theorem at a concrete input.\<close>

theorem weighted_average_is_biased_average_witness:
  "weighted_average [1 / 2, 1 / 2, 1 / 2] [1, 2, 6] = Inr (sum_list [1, 2, 6] / real (length [1, 2, 6 :: real])) \<and>
   sum_list [1, 2, 6 :: real] / real (length [1, 2, 6 :: real]) = 3"
proof -
  have h: "[1, 2, 6 :: real] \<noteq> [] \<and> [1 / 2, 1 / 2, 1 / 2] = replicate (length [1, 2, 6 :: real]) (1 / 2 :: real)
            \<and> (1 / 2 :: real) \<noteq> 0 \<and> 0 \<le> (1 / 2 :: real)"
    by (simp add: numeral_3_eq_3)
  note t = weighted_average_is_biased_average[of "[1 / 2, 1 / 2, 1 / 2]" "[1, 2, 6]" "1 / 2",
      THEN conjunct2, THEN mp, OF h]
  have v: "sum_list [1, 2, 6 :: real] / real (length [1, 2, 6 :: real]) = 3" by simp
  show ?thesis by (intro conjI t v)
qed

lemma find_first_index:
  assumes "0 < i" "i < n" "P i" "\<forall>j. 0 < j \<and> j < i \<longrightarrow> \<not> P j"
  shows "find P [1..<n] = Some i"
proof -
  have "\<exists>k<length [1..<n]. P ([1..<n] ! k) \<and> i = [1..<n] ! k \<and> (\<forall>j<k. \<not> P ([1..<n] ! j))"
  proof (intro exI[of _ "i - 1"] conjI allI impI)
    show "i - 1 < length [1..<n]" using assms by simp
    show "P ([1..<n] ! (i - 1))" using assms by simp
    show "i = [1..<n] ! (i - 1)" using assms by simp
    fix j assume "j < i - 1"
    then show "\<not> P ([1..<n] ! j)" using assms by simp
  qed
  then show ?thesis by (simp only: find_Some_iff)
qed

lemma find_none: "(\<forall>j. 0 < j \<and> j < n \<longrightarrow> \<not> P j) \<Longrightarrow> find P [1..<n] = None"
  by (simp add: find_None_iff)

lemma calculate_membership_single:
  "calculate_membership x [(px, pv)] = (if x = px then Finite pv else Finite 0)"
  by (simp add: calculate_membership_def)

lemma calculate_membership_bracket:
  assumes len: "1 < length ps" and lo: "fst (ps ! 0) \<le> x"
    and i: "0 < i" "i < length ps" and hi: "x \<le> fst (ps ! i)"
    and first: "\<forall>j. 0 < j \<and> j < i \<longrightarrow> \<not> x \<le> fst (ps ! j)"
    and width: "fst (ps ! 0) < x \<or> fst (ps ! 0) < fst (ps ! 1)"
  shows "calculate_membership x ps = Finite (interpolate ps i x)"
    and "fst (ps ! (i - 1)) \<le> x"
    and "fst (ps ! (i - 1)) < fst (ps ! i)"
proof -
  have f: "find (\<lambda>i. x \<le> fst (ps ! i)) [1..<length ps] = Some i"
    using i hi first by (rule find_first_index)
  show below: "fst (ps ! (i - 1)) \<le> x"
  proof (cases "i = 1")
    case True then show ?thesis using lo by simp
  next
    case False
    then have "0 < i - 1 \<and> i - 1 < i" using i by simp
    then have "\<not> x \<le> fst (ps ! (i - 1))" using first by blast
    then show ?thesis by simp
  qed
  show w: "fst (ps ! (i - 1)) < fst (ps ! i)"
  proof (cases "i = 1")
    case True
    then show ?thesis using width lo hi by auto
  next
    case False
    then have "0 < i - 1 \<and> i - 1 < i" using i by simp
    then have "\<not> x \<le> fst (ps ! (i - 1))" using first by blast
    then show ?thesis using hi by simp
  qed
  have ne: "fst (ps ! i) - fst (ps ! (i - 1)) \<noteq> 0" using w by simp
  have n1: "length ps \<noteq> 1" using len by simp
  show "calculate_membership x ps = Finite (interpolate ps i x)"
    unfolding calculate_membership_def interpolate_def
    using n1 len lo f ne by (simp add: Let_def)
qed

lemma calculate_membership_in_range:
  assumes len: "1 < length ps" and lo: "fst (ps ! 0) \<le> x" and hi: "x \<le> fst (last ps)"
    and width: "fst (ps ! 0) < x \<or> fst (ps ! 0) < fst (ps ! 1)"
  shows "\<exists>i. 0 < i \<and> i < length ps \<and> fst (ps ! (i - 1)) \<le> x \<and> x \<le> fst (ps ! i) \<and>
             fst (ps ! (i - 1)) < fst (ps ! i) \<and>
             calculate_membership x ps = Finite (interpolate ps i x)"
proof -
  define Q where "Q i \<longleftrightarrow> 0 < i \<and> i < length ps \<and> x \<le> fst (ps ! i)" for i
  define i where "i = (LEAST i. Q i)"
  have ne: "ps \<noteq> []" using len by auto
  have "Q (length ps - 1)" using len hi by (simp add: Q_def last_conv_nth[OF ne])
  then have Qi: "Q i" unfolding i_def by (rule LeastI)
  have least: "\<not> Q j" if "j < i" for j using that unfolding i_def by (rule not_less_Least)
  have first: "\<forall>j. 0 < j \<and> j < i \<longrightarrow> \<not> x \<le> fst (ps ! j)"
  proof (intro allI impI)
    fix j assume j: "0 < j \<and> j < i"
    then have "\<not> Q j" using least by simp
    moreover have "j < length ps" using j Qi by (simp add: Q_def)
    ultimately show "\<not> x \<le> fst (ps ! j)" using j by (simp add: Q_def)
  qed
  have i0: "0 < i" and il: "i < length ps" and xi: "x \<le> fst (ps ! i)"
    using Qi by (simp_all add: Q_def)
  note b = calculate_membership_bracket[OF len lo i0 il xi first width]
  show ?thesis using i0 il xi b by blast
qed

lemma calculate_membership_below:
  assumes "ps \<noteq> []" "x < fst (ps ! 0)"
  shows "calculate_membership x ps = Finite 0"
  using assms by (simp add: calculate_membership_def)

lemma calculate_membership_above:
  assumes "\<forall>j<length ps. fst (ps ! j) < x"
  shows "calculate_membership x ps = Finite 0"
proof -
  have "find (\<lambda>i. x \<le> fst (ps ! i)) [1..<length ps] = None"
    using assms by (intro find_none) (auto simp: not_le)
  moreover have "length ps = 1 \<Longrightarrow> x \<noteq> fst (ps ! 0)" using assms by auto
  ultimately show ?thesis by (simp add: calculate_membership_def)
qed

lemma calculate_membership_empty: "calculate_membership x [] = Finite 0"
  by (simp add: calculate_membership_def)

lemma calculate_membership_no_bracket:
  assumes "1 < length ps" "\<forall>j. 0 < j \<and> j < length ps \<longrightarrow> fst (ps ! j) < x"
  shows "calculate_membership x ps = Finite 0"
proof -
  have "find (\<lambda>i. x \<le> fst (ps ! i)) [1..<length ps] = None"
    using assms(2) by (intro find_none) (auto simp: not_le)
  then show ?thesis using assms(1) by (simp add: calculate_membership_def)
qed

text \<open>
  Claim C9. With a single point, \<open>calculate_membership\<close> returns the point's value
  when \<open>x\<close> is its first coordinate. With several points and \<open>x\<close> between the
  first coordinates of the first and the last point, it returns the linear interpolation
  between the two points that bracket \<open>x\<close> (the first point whose coordinate is not
  below \<open>x\<close> and its predecessor; the bracket has positive width unless \<open>x\<close> and
  the first two points share one coordinate). Left of the first point, when no point
  from the second on reaches \<open>x\<close>, for a single point other than \<open>x\<close> and
  without points it returns 0.
\<close>

theorem calculate_membership_cases:
  "calculate_membership x [(px, pv)] = (if x = px then Finite pv else Finite 0) \<and>
   (1 < length ps \<and> fst (ps ! 0) \<le> x \<and> x \<le> fst (last ps) \<and>
      (fst (ps ! 0) < x \<or> fst (ps ! 0) < fst (ps ! 1)) \<longrightarrow>
      (\<exists>i. 0 < i \<and> i < length ps \<and> fst (ps ! (i - 1)) \<le> x \<and> x \<le> fst (ps ! i) \<and>
           fst (ps ! (i - 1)) < fst (ps ! i) \<and>
           calculate_membership x ps = Finite (interpolate ps i x))) \<and>
   (x < fst (ps ! 0) \<or>
    (1 < length ps \<and> (\<forall>j. 0 < j \<and> j < length ps \<longrightarrow> fst (ps ! j) < x)) \<or>
    (length ps = 1 \<and> x \<noteq> fst (ps ! 0)) \<or> ps = [] \<longrightarrow>
      calculate_membership x ps = Finite 0)"
proof (intro conjI impI)
  show "calculate_membership x [(px, pv)] = (if x = px then Finite pv else Finite 0)"
    by (rule calculate_membership_single)
  show "\<exists>i. 0 < i \<and> i < length ps \<and> fst (ps ! (i - 1)) \<le> x \<and> x \<le> fst (ps ! i) \<and>
           fst (ps ! (i - 1)) < fst (ps ! i) \<and>
           calculate_membership x ps = Finite (interpolate ps i x)"
    if "1 < length ps \<and> fst (ps ! 0) \<le> x \<and> x \<le> fst (last ps) \<and>
      (fst (ps ! 0) < x \<or> fst (ps ! 0) < fst (ps ! 1))"
    using that by (intro calculate_membership_in_range) simp_all
  show "calculate_membership x ps = Finite 0"
    if h: "x < fst (ps ! 0) \<or>
      (1 < length ps \<and> (\<forall>j. 0 < j \<and> j < length ps \<longrightarrow> fst (ps ! j) < x)) \<or>
      (length ps = 1 \<and> x \<noteq> fst (ps ! 0)) \<or> ps = []"
  proof (cases "ps = []")
    case True
    then show ?thesis by (simp add: calculate_membership_empty)
  next
    case False
    from h False consider "x < fst (ps ! 0)"
      | "1 < length ps" "\<forall>j. 0 < j \<and> j < length ps \<longrightarrow> fst (ps ! j) < x"
      | "length ps = 1" "x \<noteq> fst (ps ! 0)" by blast
    then show ?thesis
    proof cases
      case 1 then show ?thesis using False by (rule calculate_membership_below[rotated])
    next
      case 2 then show ?thesis by (rule calculate_membership_no_bracket)
    next
      case 3 then show ?thesis by (simp add: calculate_membership_def)
    qed
  qed
qed

text \<open>The theorem at a concrete input.\<close>

theorem calculate_membership_cases_witness:
  "(\<exists>i. 0 < i \<and> i < length ([(0, 0), (2, 1), (4, 0)] :: (real \<times> real) list) \<and>
        fst (([(0, 0), (2, 1), (4, 0)] :: (real \<times> real) list) ! (i - 1)) \<le> (1 :: real) \<and>
        1 \<le> fst (([(0, 0), (2, 1), (4, 0)] :: (real \<times> real) list) ! i) \<and>
        fst (([(0, 0), (2, 1), (4, 0)] :: (real \<times> real) list) ! (i - 1)) < fst (([(0, 0), (2, 1), (4, 0)] :: (real \<times> real) list) ! i) \<and>
        calculate_membership 1 ([(0, 0), (2, 1), (4, 0)] :: (real \<times> real) list)
          = Finite (interpolate ([(0, 0), (2, 1), (4, 0)] :: (real \<times> real) list) i 1)) \<and>
   calculate_membership 1 ([(0, 0), (2, 1), (4, 0)] :: (real \<times> real) list) = Finite (1 / 2) \<and>
   calculate_membership 5 ([(0, 0), (2, 1), (4, 0)] :: (real \<times> real) list) = Finite 0"
proof -
  have h: "1 < length ([(0, 0), (2, 1), (4, 0)] :: (real \<times> real) list) \<and>
           fst (([(0, 0), (2, 1), (4, 0)] :: (real \<times> real) list) ! 0) \<le> (1 :: real) \<and>
           (1 :: real) \<le> fst (last ([(0, 0), (2, 1), (4, 0)] :: (real \<times> real) list)) \<and>
           (fst (([(0, 0), (2, 1), (4, 0)] :: (real \<times> real) list) ! 0) < (1 :: real) \<or>
            fst (([(0, 0), (2, 1), (4, 0)] :: (real \<times> real) list) ! 0) < fst (([(0, 0), (2, 1), (4, 0)] :: (real \<times> real) list) ! 1))"
    by simp
  note t = calculate_membership_cases[of 1 0 0 "([(0, 0), (2, 1), (4, 0)] :: (real \<times> real) list)",
      THEN conjunct2, THEN conjunct1, THEN mp, OF h]
  have v: "calculate_membership 1 ([(0, 0), (2, 1), (4, 0)] :: (real \<times> real) list) = Finite (1 / 2)"
    by (simp add: calculate_membership_def upt_rec)
  have z: "calculate_membership 5 ([(0, 0), (2, 1), (4, 0)] :: (real \<times> real) list) = Finite 0"
    by (simp add: calculate_membership_def upt_rec)
  show ?thesis by (intro conjI t v z)
qed

text \<open>
  Claim C7. \<open>MamdaniConsequent.output\<close> cuts the membership array at a float firing
  and the pair of arrays at a firing pair, and raises for a firing that is neither a
  float nor a tuple. For a tuple of three floats it raises nothing and returns
  \<open>None\<close>.
\<close>

theorem mamdani_output_tuple_of_three:
  "mamdani_output (Mat [1, 1 / 2] [1, 1]) (TupleFiring [1 / 10, 1 / 5, 3 / 10]) = Inr PyNone \<and>
   mamdani_output (Vec [1, 1 / 2]) (FloatFiring (3 / 4)) = Inr (Cut (Vec [3 / 4, 1 / 2])) \<and>
   mamdani_output (Mat [1, 1 / 2] [1, 1]) (TupleFiring [1 / 4, 3 / 4])
     = Inr (CutPair (Vec [1 / 4, 1 / 4]) (Vec [3 / 4, 3 / 4])) \<and>
   mamdani_output (Vec [1, 1 / 2]) OtherFiring = Inl PyException"
  by (simp add: mamdani_output_def t1_cut_def it2_cut_def np_minimum_def nd_index_def)


section \<open>The inference system and its cache\<close>

lemma foldl_append_params: "foldl (\<lambda>acc param. acc @ [param]) acc ps = acc @ ps"
  by (induction ps arbitrary: acc) simp_all

lemma get_input_tuple_flat:
  "foldl (\<lambda>in_values r. foldl (\<lambda>acc param. acc @ [param]) in_values (map snd (function_parameters r)))
         input rs
     = input @ concat (map (\<lambda>r. map snd (function_parameters r)) rs)"
  by (induction rs arbitrary: input) (simp_all add: foldl_append_params)

lemma get_input_tuple_spec: "get_input_tuple self input = spec_cache_key self input"
  by (simp add: get_input_tuple_def spec_cache_key_def get_input_tuple_flat)

lemma eval_rules_lengths:
  "eval_rules rs sm sf outs fs calls = (Inr (outs', fs'), calls') \<Longrightarrow> length outs = length fs \<Longrightarrow>
     length outs' = length fs' \<and> calls' = calls + 2 * length rs"
proof (induction rs arbitrary: outs fs calls)
  case Nil
  then show ?case by simp
next
  case (Cons r rs)
  from Cons.prems(1) obtain out fi where
      o: "consequent_output r sm = Inr out" and f: "antecedent_fire r sf = Inr fi"
    and rest: "eval_rules rs sm sf (outs @ [out]) (fs @ [fi]) (calls + 2) = (Inr (outs', fs'), calls')"
    by (auto split: sum.splits)
  have "length (outs @ [out]) = length (fs @ [fi])" using Cons.prems(2) by simp
  from Cons.IH[OF rest this] show ?case by simp
qed

lemma argsort_sorted: "sorted (map (\<lambda>j. xs ! j) (argsort xs))"
proof -
  let ?S = "sort_key fst (zip xs [0..<length xs])"
  have "\<forall>p \<in> set ?S. xs ! snd p = fst p"
    by (auto simp: set_zip)
  then have eq: "map (\<lambda>j. xs ! j) (map snd ?S) = map fst ?S" by simp
  show ?thesis unfolding argsort_def eq by (rule sorted_sort_key)
qed

lemma mset_argsort: "mset (argsort xs) = mset [0..<length xs]"
proof -
  let ?zs = "zip xs [0..<length xs]"
  have "mset (argsort xs) = image_mset snd (mset (sort_key fst ?zs))"
    by (simp only: argsort_def mset_map)
  also have "\<dots> = image_mset snd (mset ?zs)" by (simp only: mset_sort)
  also have "\<dots> = mset (map snd ?zs)" by (simp only: mset_map)
  also have "map snd ?zs = [0..<length xs]" by simp
  finally show ?thesis .
qed

lemma zip_map_same: "zip (map f zs) (map g zs) = map (\<lambda>j. (f j, g j)) zs"
  by (induction zs) simp_all

lemma zip_conv_nth:
  "length xs = length ys \<Longrightarrow> zip xs ys = map (\<lambda>j. (xs ! j, ys ! j)) [0..<length xs]"
  by (rule nth_equalityI) simp_all

lemma argsort_keeps_pairs:
  assumes "length xs = length ys"
  shows "mset (zip (map (\<lambda>j. xs ! j) (argsort xs)) (map (\<lambda>j. ys ! j) (argsort xs)))
           = mset (zip xs ys)"
proof -
  have "zip (map (\<lambda>j. xs ! j) (argsort xs)) (map (\<lambda>j. ys ! j) (argsort xs))
          = map (\<lambda>j. (xs ! j, ys ! j)) (argsort xs)"
    by (rule zip_map_same)
  then have "mset (zip (map (\<lambda>j. xs ! j) (argsort xs)) (map (\<lambda>j. ys ! j) (argsort xs)))
          = image_mset (\<lambda>j. (xs ! j, ys ! j)) (mset (argsort xs))" by simp
  also have "\<dots> = mset (map (\<lambda>j. (xs ! j, ys ! j)) [0..<length xs])"
    by (simp only: mset_argsort mset_map)
  also have "\<dots> = mset (zip xs ys)" using zip_conv_nth[OF assms] by simp
  finally show ?thesis .
qed

lemma infer_sample_hit:
  assumes "take_sample features_dict i = Inr sf" "take_sample measures_dict i = Inr sm"
    and "cache st (spec_cache_key self (map snd sm)) = Some v"
  shows "infer_sample self defuzz features_dict measures_dict i st = (Inr v, st)"
  using assms by (simp add: infer_sample_def get_input_tuple_spec is_cached_def Let_def)

lemma infer_sample_miss:
  assumes "take_sample features_dict i = Inr sf" "take_sample measures_dict i = Inr sm"
    and "cache st (spec_cache_key self (map snd sm)) = None"
    and "eval_rules (rule_base self) sm sf [] [] (rule_calls st) = (Inr (outputs, firings), calls)"
  shows "infer_sample self defuzz features_dict measures_dict i st =
           (case defuzz (map (\<lambda>j. firings ! j) (argsort outputs)) (map (\<lambda>j. outputs ! j) (argsort outputs)) of
              Inl e \<Rightarrow> (Inl e, st\<lparr>rule_calls := calls\<rparr>)
            | Inr conclusion \<Rightarrow>
                (Inr conclusion,
                 st\<lparr>cache := (cache st)(spec_cache_key self (map snd sm) \<mapsto> conclusion),
                    rule_calls := calls\<rparr>))"
  using assms by (simp add: infer_sample_def get_input_tuple_spec is_cached_def Let_def)

text \<open>
  Claim C5. The cache key of a sample is the list of its measured values followed by the
  consequent coefficients of all rules in rule-base order. When the key is cached,
  the stored conclusion is returned and the state, with its count of rule
  evaluations, is unchanged. Otherwise every rule is evaluated once and the
  defuzzification method receives the outputs in ascending order, each with its
  own firing.
\<close>

theorem infer_cache_key_hit_and_sorting:
  "get_input_tuple self input = spec_cache_key self input \<and>
   (take_sample features_dict i = Inr sf \<and> take_sample measures_dict i = Inr sm \<and>
    cache st (spec_cache_key self (map snd sm)) = Some v \<longrightarrow>
      infer_sample self defuzz features_dict measures_dict i st = (Inr v, st)) \<and>
   (take_sample features_dict i = Inr sf \<and> take_sample measures_dict i = Inr sm \<and>
    cache st (spec_cache_key self (map snd sm)) = None \<and>
    eval_rules (rule_base self) sm sf [] [] (rule_calls st) = (Inr (outputs, firings), calls) \<longrightarrow>
      (\<exists>outputs_sorted firings_sorted.
         sorted outputs_sorted \<and>
         mset (zip outputs_sorted firings_sorted) = mset (zip outputs firings) \<and>
         calls = rule_calls st + 2 * length (rule_base self) \<and>
         infer_sample self defuzz features_dict measures_dict i st =
           (case defuzz firings_sorted outputs_sorted of
              Inl e \<Rightarrow> (Inl e, st\<lparr>rule_calls := calls\<rparr>)
            | Inr conclusion \<Rightarrow>
                (Inr conclusion,
                 st\<lparr>cache := (cache st)(spec_cache_key self (map snd sm) \<mapsto> conclusion),
                    rule_calls := calls\<rparr>))))"
proof (intro conjI impI)
  show "get_input_tuple self input = spec_cache_key self input"
    by (rule get_input_tuple_spec)
  show "infer_sample self defuzz features_dict measures_dict i st = (Inr v, st)"
    if "take_sample features_dict i = Inr sf \<and> take_sample measures_dict i = Inr sm \<and>
        cache st (spec_cache_key self (map snd sm)) = Some v"
    using that infer_sample_hit[of features_dict i sf measures_dict sm st self v defuzz] by blast
  assume h: "take_sample features_dict i = Inr sf \<and> take_sample measures_dict i = Inr sm \<and>
    cache st (spec_cache_key self (map snd sm)) = None \<and>
    eval_rules (rule_base self) sm sf [] [] (rule_calls st) = (Inr (outputs, firings), calls)"
  then have ev: "eval_rules (rule_base self) sm sf [] [] (rule_calls st) = (Inr (outputs, firings), calls)"
    by simp
  have len: "length outputs = length firings" and calls: "calls = rule_calls st + 2 * length (rule_base self)"
    using eval_rules_lengths[OF ev] by simp_all
  let ?os = "map (\<lambda>j. outputs ! j) (argsort outputs)"
  let ?fs = "map (\<lambda>j. firings ! j) (argsort outputs)"
  have s: "sorted ?os" by (rule argsort_sorted)
  have m: "mset (zip ?os ?fs) = mset (zip outputs firings)" using len by (rule argsort_keeps_pairs)
  have r: "infer_sample self defuzz features_dict measures_dict i st =
           (case defuzz ?fs ?os of
              Inl e \<Rightarrow> (Inl e, st\<lparr>rule_calls := calls\<rparr>)
            | Inr conclusion \<Rightarrow>
                (Inr conclusion,
                 st\<lparr>cache := (cache st)(spec_cache_key self (map snd sm) \<mapsto> conclusion),
                    rule_calls := calls\<rparr>))"
    using h infer_sample_miss[of features_dict i sf measures_dict sm st self outputs firings calls defuzz]
    by blast
  show "\<exists>outputs_sorted firings_sorted.
         sorted outputs_sorted \<and>
         mset (zip outputs_sorted firings_sorted) = mset (zip outputs firings) \<and>
         calls = rule_calls st + 2 * length (rule_base self) \<and>
         infer_sample self defuzz features_dict measures_dict i st =
           (case defuzz firings_sorted outputs_sorted of
              Inl e \<Rightarrow> (Inl e, st\<lparr>rule_calls := calls\<rparr>)
            | Inr conclusion \<Rightarrow>
                (Inr conclusion,
                 st\<lparr>cache := (cache st)(spec_cache_key self (map snd sm) \<mapsto> conclusion),
                    rule_calls := calls\<rparr>))"
    using s m calls r by (intro exI[of _ ?os] exI[of _ ?fs] conjI)
qed

lemma cache_hit_other_instance:
  assumes sf: "take_sample features_dict i = Inr sf" and sm: "take_sample measures_dict i = Inr sm"
    and a: "infer_sample self_a defuzz_a features_dict measures_dict i st = (Inr c, st')"
    and key: "spec_cache_key self_b (map snd sm) = spec_cache_key self_a (map snd sm)"
  shows "infer_sample self_b defuzz_b features_dict measures_dict i st' = (Inr c, st')"
proof -
  let ?k = "spec_cache_key self_a (map snd sm)"
  have "cache st' ?k = Some c"
  proof (cases "cache st ?k")
    case (Some v)
    have "infer_sample self_a defuzz_a features_dict measures_dict i st = (Inr v, st)"
      using sf sm Some by (rule infer_sample_hit)
    then show ?thesis using a Some by simp
  next
    case None
    obtain res calls where ev: "eval_rules (rule_base self_a) sm sf [] [] (rule_calls st) = (res, calls)"
      by (cases "eval_rules (rule_base self_a) sm sf [] [] (rule_calls st)")
    show ?thesis
    proof (cases res)
      case (Inl e)
      then have "infer_sample self_a defuzz_a features_dict measures_dict i st = (Inl e, st\<lparr>rule_calls := calls\<rparr>)"
        using sf sm None ev
        by (simp add: infer_sample_def get_input_tuple_spec is_cached_def Let_def)
      then show ?thesis using a by simp
    next
      case (Inr p)
      obtain outputs firings where p: "p = (outputs, firings)" by (cases p)
      have "infer_sample self_a defuzz_a features_dict measures_dict i st =
           (case defuzz_a (map (\<lambda>j. firings ! j) (argsort outputs)) (map (\<lambda>j. outputs ! j) (argsort outputs)) of
              Inl e \<Rightarrow> (Inl e, st\<lparr>rule_calls := calls\<rparr>)
            | Inr conclusion \<Rightarrow>
                (Inr conclusion,
                 st\<lparr>cache := (cache st)(?k \<mapsto> conclusion), rule_calls := calls\<rparr>))"
        using ev unfolding Inr p by (rule infer_sample_miss[OF sf sm None])
      then show ?thesis using a by (auto split: sum.splits)
    qed
  qed
  then have "cache st' (spec_cache_key self_b (map snd sm)) = Some c" using key by simp
  with sf sm show ?thesis by (rule infer_sample_hit)
qed

lemma infer_single_sample:
  "infer self defuzz features_dict [(k, [x])] st =
     (case infer_sample self defuzz features_dict [(k, [x])] 0 st of
        (Inl e, st') \<Rightarrow> (Inl e, st')
      | (Inr conclusion, st') \<Rightarrow> (Inr [conclusion], st'))"
  by (simp add: infer_def split: prod.splits sum.splits)

lemma instance_a_first:
  "infer_sample instance_a weighted_average [] [(''x'', [1])] 0 initial_state =
     (Inr (10000000003 / 10000000002),
      \<lparr>cache = [[1, 1, 2] \<mapsto> 10000000003 / 10000000002], rule_calls = 4\<rparr>)"
  by (simp add: infer_sample_def get_input_tuple_def is_cached_def instance_a_def linear_rule_def
        initial_state_def argsort_def weighted_average_def np_average_def bias_def Let_def)

lemma instance_b_first:
  "infer_sample instance_b weighted_average [] [(''x'', [1])] 0 initial_state =
     (Inr (20000000003 / 10000000002),
      \<lparr>cache = [[1, 1, 2] \<mapsto> 20000000003 / 10000000002], rule_calls = 4\<rparr>)"
  by (simp add: infer_sample_def get_input_tuple_def is_cached_def instance_b_def linear_rule_def
        initial_state_def argsort_def weighted_average_def np_average_def bias_def Let_def)

lemma instance_b_after_a:
  "infer_sample instance_b weighted_average [] [(''x'', [1])] 0
     \<lparr>cache = [[1, 1, 2] \<mapsto> 10000000003 / 10000000002], rule_calls = 4\<rparr> =
     (Inr (10000000003 / 10000000002),
      \<lparr>cache = [[1, 1, 2] \<mapsto> 10000000003 / 10000000002], rule_calls = 4\<rparr>)"
  by (simp add: infer_sample_def get_input_tuple_def is_cached_def instance_b_def linear_rule_def Let_def)

text \<open>The theorem at a concrete input.\<close>

theorem infer_cache_key_hit_and_sorting_witness:
  "infer_sample instance_b weighted_average [] [(''x'', [1])] 0
     \<lparr>cache = [spec_cache_key instance_b (map snd [(''x'', 1 :: real)]) \<mapsto> 7], rule_calls = 4\<rparr> =
     (Inr 7, \<lparr>cache = [spec_cache_key instance_b (map snd [(''x'', 1 :: real)]) \<mapsto> 7], rule_calls = 4\<rparr>) \<and>
   spec_cache_key instance_b (map snd [(''x'', 1 :: real)]) = [1, 1, 2]"
proof -
  let ?st = "\<lparr>cache = [spec_cache_key instance_b (map snd [(''x'', 1 :: real)]) \<mapsto> 7], rule_calls = 4\<rparr>"
  have h: "take_sample ([] :: (string \<times> real list) list) 0 = Inr [] \<and>
           take_sample [(''x'', [1 :: real])] 0 = Inr [(''x'', 1)] \<and>
           cache ?st (spec_cache_key instance_b (map snd [(''x'', 1 :: real)])) = Some 7"
    by simp
  note t = infer_cache_key_hit_and_sorting[of instance_b _ "[]" 0 "[]" "[(''x'', [1])]" "[(''x'', 1)]" ?st 7
      weighted_average, THEN conjunct2, THEN conjunct1, THEN mp, OF h]
  have k: "spec_cache_key instance_b (map snd [(''x'', 1 :: real)]) = [1, 1, 2]"
    by (simp add: spec_cache_key_def instance_b_def linear_rule_def)
  show ?thesis by (intro conjI t k)
qed

lemma infer_sample_frame:
  assumes "take_sample measures_dict i = Inr sm"
    and "infer_sample self defuzz features_dict measures_dict i st = (r, st')"
    and "k \<noteq> spec_cache_key self (map snd sm)"
  shows "cache st' k = cache st k"
  using assms
  by (auto simp: infer_sample_def get_input_tuple_spec is_cached_def Let_def
           split: sum.splits prod.splits if_splits)

text \<open>
  Claim C6, as amended. The cache is one dictionary of the class: once an instance has
  returned a conclusion for a sample, every instance whose key for that sample is the
  same returns this conclusion from the cache, whatever its rules and defuzzification
  method are. Of the state, a sample changes nothing but the cache entry of its key.
\<close>

theorem cache_is_shared_by_all_instances:
  "(take_sample features_dict i = Inr sf \<and> take_sample measures_dict i = Inr sm \<and>
    infer_sample self_a defuzz_a features_dict measures_dict i st = (Inr c, st') \<and>
    spec_cache_key self_b (map snd sm) = spec_cache_key self_a (map snd sm) \<longrightarrow>
      infer_sample self_b defuzz_b features_dict measures_dict i st' = (Inr c, st')) \<and>
   (take_sample measures_dict i = Inr sm \<and>
    infer_sample self_a defuzz_a features_dict measures_dict i st = (r, st'') \<and>
    k \<noteq> spec_cache_key self_a (map snd sm) \<longrightarrow>
      cache st'' k = cache st k)"
proof (intro conjI impI)
  assume "take_sample features_dict i = Inr sf \<and> take_sample measures_dict i = Inr sm \<and>
    infer_sample self_a defuzz_a features_dict measures_dict i st = (Inr c, st') \<and>
    spec_cache_key self_b (map snd sm) = spec_cache_key self_a (map snd sm)"
  then show "infer_sample self_b defuzz_b features_dict measures_dict i st' = (Inr c, st')"
    by (elim conjE) (rule cache_hit_other_instance)
next
  assume "take_sample measures_dict i = Inr sm \<and>
    infer_sample self_a defuzz_a features_dict measures_dict i st = (r, st'') \<and>
    k \<noteq> spec_cache_key self_a (map snd sm)"
  then show "cache st'' k = cache st k"
    by (elim conjE) (rule infer_sample_frame)
qed

text \<open>The theorem at a concrete input.\<close>

theorem cache_is_shared_by_all_instances_witness:
  "infer_sample instance_b weighted_average [] [(''x'', [1])] 0
     \<lparr>cache = [[1, 1, 2] \<mapsto> 10000000003 / 10000000002], rule_calls = 4\<rparr> =
     (Inr (10000000003 / 10000000002),
      \<lparr>cache = [[1, 1, 2] \<mapsto> 10000000003 / 10000000002], rule_calls = 4\<rparr>)"
proof -
  have h: "take_sample ([] :: (string \<times> real list) list) 0 = Inr [] \<and>
           take_sample [(''x'', [1 :: real])] 0 = Inr [(''x'', 1)] \<and>
           infer_sample instance_a weighted_average [] [(''x'', [1])] 0 initial_state =
             (Inr (10000000003 / 10000000002),
              \<lparr>cache = [[1, 1, 2] \<mapsto> 10000000003 / 10000000002], rule_calls = 4\<rparr>) \<and>
           spec_cache_key instance_b (map snd [(''x'', 1 :: real)])
             = spec_cache_key instance_a (map snd [(''x'', 1 :: real)])"
    using instance_a_first
    by (simp add: spec_cache_key_def instance_a_def instance_b_def linear_rule_def)
  show ?thesis
    by (rule cache_is_shared_by_all_instances[THEN conjunct1, THEN mp, OF h])
qed

text \<open>
  Claim C6 as stated fails: after the first instance inferred the sample, the second
  instance returns the first one's conclusion without evaluating a rule, although its
  own conclusion from an empty cache is another number.
\<close>

theorem instance_cache_counterexample:
  "fst (infer instance_b weighted_average [] [(''x'', [1])]
          (snd (infer instance_a weighted_average [] [(''x'', [1])] initial_state)))
     = Inr [10000000003 / 10000000002] \<and>
   fst (infer instance_a weighted_average [] [(''x'', [1])] initial_state)
     = Inr [10000000003 / 10000000002] \<and>
   fst (infer instance_b weighted_average [] [(''x'', [1])] initial_state)
     = Inr [20000000003 / 10000000002] \<and>
   rule_calls (snd (infer instance_b weighted_average [] [(''x'', [1])]
          (snd (infer instance_a weighted_average [] [(''x'', [1])] initial_state))))
     = rule_calls (snd (infer instance_a weighted_average [] [(''x'', [1])] initial_state))"
  by (simp add: infer_single_sample instance_a_first instance_b_first instance_b_after_a)


section \<open>The Takagi-Sugeno variant of Karnik-Mendel\<close>

lemma ts_domain_grid:
  assumes "step \<noteq> 0"
  shows "ts_domain rows step =
           map (\<lambda>i. (real_of_int \<lfloor>fst (hd rows) / step\<rfloor> + real i) * step)
               [0..<nat (\<lfloor>fst (last rows) / step\<rfloor> - \<lfloor>fst (hd rows) / step\<rfloor> + 1)]"
proof -
  define a where "a = \<lfloor>fst (hd rows) / step\<rfloor>"
  define b where "b = \<lfloor>fst (last rows) / step\<rfloor>"
  have fl: "\<lfloor>fst (last rows) / step + 1\<rfloor> = b + 1" by (simp add: b_def)
  have "(real_of_int (b + 1) * step - real_of_int a * step) / step = real_of_int (b + 1 - a)"
    using assms by (simp add: field_simps)
  then have n: "nat \<lceil>(real_of_int (b + 1) * step - real_of_int a * step) / step\<rceil> = nat (b - a + 1)"
    by (simp only: ceiling_of_int) (simp add: algebra_simps)?
  have "ts_domain rows step =
          map (\<lambda>i. real_of_int a * step + real i * step) [0..<nat (b - a + 1)]"
    unfolding ts_domain_def np_arange_def fl a_def[symmetric] n ..
  also have "\<dots> = map (\<lambda>i. (real_of_int a + real i) * step) [0..<nat (b - a + 1)]"
    by (simp add: algebra_simps)
  finally show ?thesis by (simp add: a_def b_def)
qed

lemma grid_covers:
  assumes "0 < step"
  shows "real_of_int \<lfloor>y / step\<rfloor> * step \<le> y" and "y < (real_of_int \<lfloor>y / step\<rfloor> + 1) * step"
proof -
  have "real_of_int \<lfloor>y / step\<rfloor> \<le> y / step" by (rule of_int_floor_le)
  then show "real_of_int \<lfloor>y / step\<rfloor> * step \<le> y"
    using assms by (simp only: pos_le_divide_eq)
  have "y / step < real_of_int \<lfloor>y / step\<rfloor> + 1" by linarith
  then show "y < (real_of_int \<lfloor>y / step\<rfloor> + 1) * step"
    using assms by (simp only: pos_divide_less_eq)
qed

lemma sort_rules_sorted: "sorted (map fst (sort_rules rows))"
  by (simp add: sort_rules_def)

lemma sort_rules_mset: "mset (sort_rules rows) = mset rows"
  by (simp add: sort_rules_def)

lemma sorted_hd_le_last: "sorted xs \<Longrightarrow> xs \<noteq> [] \<Longrightarrow> hd xs \<le> (last xs :: real)"
  by (cases xs) auto

lemma takagi_sugeno_unfold:
  assumes "step \<noteq> 0" "outputs \<noteq> []" "length firings = length outputs"
  shows "takagi_sugeno_karnik_mendel firings outputs step =
     (let outputs_of_rules = sort_rules (zip outputs firings);
          domain = ts_domain outputs_of_rules step;
          lmf = map (\<lambda>x. calculate_membership x (lower_points outputs_of_rules)) domain;
          umf = map (\<lambda>x. calculate_membership x (upper_points outputs_of_rules)) domain
      in if list_ex is_nan (lmf @ umf) then Some (Inl IndexError)
         else karnik_mendel (Single (map the_finite lmf)) (Single (map the_finite umf)) domain)"
proof -
  have "zip outputs firings \<noteq> []" using assms(2,3) by (cases outputs; cases firings) auto
  then have "mset (sort_rules (zip outputs firings)) \<noteq> {#}" by (simp add: sort_rules_mset)
  then have "sort_rules (zip outputs firings) \<noteq> []" by auto
  then show ?thesis using assms by (simp add: takagi_sugeno_karnik_mendel_def Let_def)
qed

text \<open>
  Claim C4, as amended. For a positive \<open>step\<close>, \<open>takagi_sugeno_karnik_mendel\<close>
  sorts the rows by output and builds the domain on the grid of multiples of
  \<open>step\<close>: from the minimum output rounded down to a multiple of \<open>step\<close>, in
  steps of \<open>step\<close>, up to the maximum output rounded down to a multiple of
  \<open>step\<close>. Every domain point gets its lower and upper membership from
  \<open>calculate_membership\<close> over the sorted (output, lower firing) and (output, upper
  firing) points, and, none of them being NaN, the result is that of
  \<open>karnik_mendel\<close> on these arrays.
\<close>

theorem takagi_sugeno_karnik_mendel_on_step_grid:
  assumes "0 < step" and "outputs \<noteq> []" and "length firings = length outputs"
    and "rows = sort_rules (zip outputs firings)"
    and "a = \<lfloor>fst (hd rows) / step\<rfloor>" and "b = \<lfloor>fst (last rows) / step\<rfloor>"
    and "domain = map (\<lambda>i. (real_of_int a + real i) * step) [0..<nat (b - a + 1)]"
    and "lmf = map (\<lambda>x. calculate_membership x (lower_points rows)) domain"
    and "umf = map (\<lambda>x. calculate_membership x (upper_points rows)) domain"
    and "\<not> list_ex is_nan (lmf @ umf)"
  shows "takagi_sugeno_karnik_mendel firings outputs step
           = karnik_mendel (Single (map the_finite lmf)) (Single (map the_finite umf)) domain \<and>
         sorted (map fst rows) \<and> mset rows = mset (zip outputs firings) \<and> a \<le> b \<and>
         real_of_int a * step \<le> fst (hd rows) \<and> fst (last rows) < (real_of_int b + 1) * step"
proof -
  have s0: "step \<noteq> 0" using assms(1) by simp
  have dom: "ts_domain rows step = domain"
    unfolding assms(7) assms(5) assms(6) using s0 by (rule ts_domain_grid)
  have eq: "takagi_sugeno_karnik_mendel firings outputs step
           = karnik_mendel (Single (map the_finite lmf)) (Single (map the_finite umf)) domain"
    using assms(10) dom
    by (simp add: takagi_sugeno_unfold[OF s0 assms(2,3)] Let_def
          assms(4)[symmetric] assms(8)[symmetric] assms(9)[symmetric])
  have srt: "sorted (map fst rows)" unfolding assms(4) by (rule sort_rules_sorted)
  have ms: "mset rows = mset (zip outputs firings)" unfolding assms(4) by (rule sort_rules_mset)
  have "zip outputs firings \<noteq> []" using assms(2,3) by (cases outputs; cases firings) auto
  then have "mset rows \<noteq> {#}" using ms by simp
  then have ne: "rows \<noteq> []" by auto
  have "hd (map fst rows) \<le> last (map fst rows)"
    using srt ne by (intro sorted_hd_le_last) simp_all
  then have "fst (hd rows) \<le> fst (last rows)" using ne by (simp add: hd_map last_map)
  then have "fst (hd rows) / step \<le> fst (last rows) / step"
    using assms(1) by (simp add: divide_right_mono)
  then have ab: "a \<le> b" unfolding assms(5,6) by (rule floor_mono)
  show ?thesis
    using eq srt ms ab grid_covers[OF assms(1)] by (simp add: assms(5,6))
qed

lemma upt_3: "[0..<3] = [0, Suc 0, Suc (Suc 0)]"
  by (simp add: upt_rec)

text \<open>The theorem at a concrete input.\<close>

theorem takagi_sugeno_karnik_mendel_on_step_grid_witness:
  "takagi_sugeno_karnik_mendel [(1 / 2, 1), (1 / 4, 1 / 2)] [0, 1] (1 / 2)
     = karnik_mendel (Single [1 / 2, 3 / 8, 1 / 4]) (Single [1, 3 / 4, 1 / 2]) [0, 1 / 2, 1]"
proof -
  let ?rows = "[(0, 1 / 2, 1), (1, 1 / 4, 1 / 2)] :: (real \<times> real \<times> real) list"
  let ?dom = "[0, 1 / 2, 1] :: real list"
  let ?lmf = "[Finite (1 / 2), Finite (3 / 8), Finite (1 / 4)]"
  let ?umf = "[Finite 1, Finite (3 / 4), Finite (1 / 2)]"
  have h1: "0 < (1 / 2 :: real)" by simp
  have h2: "[0, 1 :: real] \<noteq> []" by simp
  have h3: "length [(1 / 2, 1), (1 / 4, 1 / 2 :: real)] = length [0, 1 :: real]" by simp
  have h4: "?rows = sort_rules (zip [0, 1] [(1 / 2, 1), (1 / 4, 1 / 2)])"
    by (simp add: sort_rules_def)
  have h5: "(0 :: int) = \<lfloor>fst (hd ?rows) / (1 / 2)\<rfloor>" by simp
  have h6: "(2 :: int) = \<lfloor>fst (last ?rows) / (1 / 2)\<rfloor>" by simp
  have h7: "?dom = map (\<lambda>i. (real_of_int 0 + real i) * (1 / 2)) [0..<nat (2 - 0 + 1)]"
    by (simp add: upt_3)
  have h8: "?lmf = map (\<lambda>x. calculate_membership x (lower_points ?rows)) ?dom"
    by (simp add: calculate_membership_def lower_points_def upt_rec)
  have h9: "?umf = map (\<lambda>x. calculate_membership x (upper_points ?rows)) ?dom"
    by (simp add: calculate_membership_def upper_points_def upt_rec)
  have h10: "\<not> list_ex is_nan (?lmf @ ?umf)" by (simp add: is_nan_def)
  note t = takagi_sugeno_karnik_mendel_on_step_grid[OF h1 h2 h3 h4 h5 h6 h7 h8 h9 h10, THEN conjunct1]
  show ?thesis using t by (simp add: the_finite_def)
qed

text \<open>
  Claim C4 as stated fails: for the single output 0.5 and \<open>step = 0.5\<close> the code's
  domain is \<open>[0.5]\<close>, while the domain from the floor of the minimum to the
  floor + 1 of the maximum is \<open>[0, 0.5]\<close>; the results on the two domains differ.
\<close>

theorem takagi_sugeno_domain_counterexample:
  "ts_domain (sort_rules (zip [1 / 2] [(1, 1)])) (1 / 2) = [1 / 2] \<and>
   spec_domain (sort_rules (zip [1 / 2] [(1, 1)])) (1 / 2) = [0, 1 / 2] \<and>
   takagi_sugeno_karnik_mendel [(1, 1)] [1 / 2] (1 / 2) = Some (Inr (1 / 2)) \<and>
   karnik_mendel
     (Single (map (\<lambda>x. the_finite (calculate_membership x (lower_points (sort_rules (zip [1 / 2] [(1, 1)])))))
                  (spec_domain (sort_rules (zip [1 / 2] [(1, 1)])) (1 / 2))))
     (Single (map (\<lambda>x. the_finite (calculate_membership x (upper_points (sort_rules (zip [1 / 2] [(1, 1)])))))
                  (spec_domain (sort_rules (zip [1 / 2] [(1, 1)])) (1 / 2))))
     (spec_domain (sort_rules (zip [1 / 2] [(1, 1)])) (1 / 2))
     = Some (Inr (10000000001 / 20000000004))"
proof -
  have rows: "sort_rules (zip [1 / 2] [(1, 1)]) = [(1 / 2 :: real, 1 :: real, 1 :: real)]"
    by (simp add: sort_rules_def)
  have d: "ts_domain [(1 / 2 :: real, 1 :: real, 1 :: real)] (1 / 2) = [1 / 2]"
    by (simp add: ts_domain_def np_arange_def)
  have sd: "spec_domain [(1 / 2 :: real, 1 :: real, 1 :: real)] (1 / 2) = [0, 1 / 2]"
    by (simp add: spec_domain_def np_arange_def upt_rec)
  have k1: "karnik_mendel (Single [1]) (Single [1]) [1 / 2] = Some (Inr (wavg [1 / 2] (map (\<lambda>x. x + bias) [1])))"
    by (rule km_degenerate) simp_all
  have v1: "wavg [1 / 2] (map (\<lambda>x. x + bias) [1]) = 1 / 2"
    by (simp add: wavg_def bias_def)
  have ts: "takagi_sugeno_karnik_mendel [(1, 1)] [1 / 2] (1 / 2) = Some (Inr (1 / 2))"
    using k1[unfolded v1]
    by (simp add: takagi_sugeno_karnik_mendel_def sort_rules_def d Let_def calculate_membership_def
          lower_points_def upper_points_def is_nan_def the_finite_def)
  have k2: "karnik_mendel (Single [0, 1]) (Single [0, 1]) [0, 1 / 2]
              = Some (Inr (wavg [0, 1 / 2] (map (\<lambda>x. x + bias) [0, 1])))"
    by (rule km_degenerate) simp_all
  have v2: "wavg [0, 1 / 2] (map (\<lambda>x. x + bias) [0, 1]) = 10000000001 / 20000000004"
    by (simp add: wavg_def bias_def)
  have sp: "karnik_mendel
     (Single (map (\<lambda>x. the_finite (calculate_membership x (lower_points [(1 / 2, 1, 1)]))) [0, 1 / 2]))
     (Single (map (\<lambda>x. the_finite (calculate_membership x (upper_points [(1 / 2, 1, 1)]))) [0, 1 / 2]))
     [0, 1 / 2] = Some (Inr (10000000001 / 20000000004))"
    using k2[unfolded v2]
    by (simp add: calculate_membership_def lower_points_def upper_points_def the_finite_def)
  show ?thesis unfolding rows d sd using ts sp unfolding rows by (intro conjI refl)
qed

end
